theory Spec2Isabelle
  imports Complex_Main "HOL-Library.Multiset"
begin

section \<open>Data model of the survey analytics aggregator\<close>

text \<open>
  The development embeds the body of \<open>getAnalytics\<close> (the survey controller): everything
  between the two database reads and the final \<open>sendSuccess\<close>. The survey and the response
  collection are its inputs, the analytics report its output.

  JavaScript values that an answer can hold (the schema declares \<open>answer\<close> as \<open>Mixed\<close>) are
  a tagged union. The numbers among the inputs are exact rationals (no rounding). \<open>NaN\<close>
  as the result of \<open>Number(...)\<close> is \<open>None\<close>; the result of a division is a \<open>jsnum\<close>,
  which is a finite number, an infinity or \<open>NaN\<close>.
  Strings are lists of 8-bit characters (code points below 256).

  The inputs are documents as the schemas declare them: every entry of \<open>questions\<close>,
  \<open>options\<close> and \<open>answers\<close> is a document (no \<open>null\<close> entry), and the conversions
  \<open>String\<close> and \<open>Number\<close> return. On such inputs the only access of the handler that can
  throw is \<open>meta.options\<close>.

  A question id is the string of its ObjectId, \<open>q._id.toString()\<close>; an answer's
  \<open>questionId\<close> is \<open>None\<close> when the field is missing. \<open>isCompleted\<close> is the boolean
  \<open>!!r.isCompleted\<close>. An absent \<open>answers\<close> or \<open>options\<close> array is the empty list, as the
  source reads \<open>r.answers || []\<close> and \<open>q.options || []\<close>.
\<close>

datatype jsval = JUndefined | JNull | JBool bool | JNum rat | JStr string | JArr "jsval list"

datatype jsnum = Finite rat | PosInfinity | NegInfinity | NaN

datatype error = TypeError

record Answer =
  a_questionId :: "string option"
  a_answer :: jsval

record Response =
  r_isCompleted :: bool
  r_timeSpent :: jsval
  r_answers :: "Answer list"

record OptionDoc =
  opt_text :: "string option"
  opt_value :: "string option"

record Question =
  q_id :: string
  q_order :: int
  q_type :: string
  q_text :: string
  q_options :: "OptionDoc list"

record Survey =
  sv_id :: string
  sv_title :: string
  sv_status :: string
  sv_createdAt :: int
  sv_questions :: "Question list"

text \<open>The entries of \<open>questionMeta\<close> and of \<open>perQuestionStats\<close>.\<close>

record MetaOption =
  mo_value :: string
  mo_text :: "string option"

record QuestionMeta =
  m_questionId :: string
  m_text :: string
  m_type :: string
  m_order :: int
  m_options :: "MetaOption list"

record Stats =
  s_questionId :: string
  s_questionText :: string
  s_type :: string
  s_order :: int
  reached :: nat
  totalAnswers :: nat
  textCount :: nat
  optionCounts :: "(string \<times> nat) list"
  ratingCounts :: "(string \<times> nat) list"

text \<open>The report.\<close>

record Totals =
  totalResponses :: nat
  completedResponses :: nat
  partialResponses :: nat
  averageCompletionTimeSeconds :: jsnum

record FunnelEntry =
  f_questionId :: string
  f_questionText :: string
  f_order :: int
  f_reached :: nat

record ChoiceOption =
  o_value :: string
  o_label :: string
  o_count :: nat
  o_percentage :: jsnum

record RatingEntry =
  d_value :: "rat option"
  d_count :: nat
  d_percentage :: jsnum

datatype Kind =
    Choice "ChoiceOption list"
  | Rating "RatingEntry list"
  | Text nat
  | Unknown

record QuestionAnalytics =
  qa_questionId :: string
  qa_questionText :: string
  qa_type :: string
  qa_order :: int
  qa_totalAnswers :: nat
  qa_kind :: Kind

record Report =
  surveyId :: string
  title :: string
  status :: string
  createdAt :: int
  totals :: Totals
  funnel :: "FunnelEntry list"
  questions :: "QuestionAnalytics list"

section \<open>Containers of the language\<close>

text \<open>
  A \<open>Map\<close>, and a plain object whose keys are not array indices (question ids are the 24
  hexadecimal digits of an ObjectId), iterate in insertion order; writing an existing
  key keeps its position. Both are association lists with that update. A \<open>Set\<close> is a
  list without duplicates, in insertion order.
\<close>

fun entry_set :: "('k \<times> 'v) list \<Rightarrow> 'k \<Rightarrow> 'v \<Rightarrow> ('k \<times> 'v) list" where
  "entry_set [] k v = [(k, v)]"
| "entry_set ((k', v') # m) k v =
     (if k' = k then (k, v) # m else (k', v') # entry_set m k v)"

definition Set_add :: "'a list \<Rightarrow> 'a \<Rightarrow> 'a list" where
  "Set_add s x = (if x \<in> set s then s else s @ [x])"

text \<open>
  \<open>Array.prototype.sort\<close> with a comparator is stable (ECMAScript 2019): an element
  goes before the elements it does not compare greater than, and equal elements keep
  their order. A comparator result of \<open>NaN\<close> counts as 0. For a comparator that is
  a consistent order this insertion sort computes the one stable sorted arrangement.
\<close>

fun sort_insert :: "('a \<Rightarrow> 'a \<Rightarrow> rat) \<Rightarrow> 'a \<Rightarrow> 'a list \<Rightarrow> 'a list" where
  "sort_insert cmp x [] = [x]"
| "sort_insert cmp x (y # ys) =
     (if cmp x y \<le> 0 then x # y # ys else y # sort_insert cmp x ys)"

definition js_sort :: "('a \<Rightarrow> 'a \<Rightarrow> rat) \<Rightarrow> 'a list \<Rightarrow> 'a list" where
  "js_sort cmp xs = foldr (sort_insert cmp) xs []"

text \<open>
  \<open>String.prototype.trim\<close> strips white space and line terminators from both ends:
  among the code points below 256 these are 9 to 13, 32 and 160.
\<close>

definition js_whitespace :: "char \<Rightarrow> bool" where
  "js_whitespace c = (of_char c \<in> {9, 10, 11, 12, 13, 32, 160 :: nat})"

definition trim :: "string \<Rightarrow> string" where
  "trim s = rev (dropWhile js_whitespace (rev (dropWhile js_whitespace s)))"

text \<open>
  Division and multiplication of finite numbers. A quotient with divisor zero is \<open>NaN\<close>
  when the dividend is zero and an infinity otherwise (the divisors of the source are
  counts, so a zero divisor is \<open>+0\<close>). A finite quotient or product is exact: the model
  does not round.
\<close>

definition js_divide :: "rat \<Rightarrow> rat \<Rightarrow> jsnum" where
  "js_divide a b =
     (if b \<noteq> 0 then Finite (a / b)
      else if a = 0 then NaN else if 0 < a then PosInfinity else NegInfinity)"

definition js_times :: "jsnum \<Rightarrow> rat \<Rightarrow> jsnum" where
  "js_times x c =
     (case x of
        Finite a \<Rightarrow> Finite (a * c)
      | NaN \<Rightarrow> NaN
      | PosInfinity \<Rightarrow> (if c = 0 then NaN else if 0 < c then PosInfinity else NegInfinity)
      | NegInfinity \<Rightarrow> (if c = 0 then NaN else if 0 < c then NegInfinity else PosInfinity))"

text \<open>
  \<open>Array.prototype.map\<close> with a callback that may throw: the first exception leaves
  the loop.
\<close>

fun map_throwing :: "('a \<Rightarrow> error + 'b) \<Rightarrow> 'a list \<Rightarrow> error + 'b list" where
  "map_throwing f [] = Inr []"
| "map_throwing f (x # xs) =
     (case f x of
        Inl e \<Rightarrow> Inl e
      | Inr y \<Rightarrow> (case map_throwing f xs of Inl e \<Rightarrow> Inl e | Inr ys \<Rightarrow> Inr (y # ys)))"

section \<open>The aggregation\<close>

text \<open>
  The built-in conversions \<open>String(v)\<close> and \<open>Number(v)\<close> are parameters of the model,
  written \<open>String\<close> and \<open>Number\<close> below; \<open>Number\<close> returns \<open>None\<close> for \<open>NaN\<close>. Every
  theorem holds for all such functions. Where the source applies \<open>String\<close> to a value
  that is a string already (the option values of the metadata), the model leaves the
  conversion out.
\<close>

type_synonym js_String = "jsval \<Rightarrow> string"
type_synonym js_Number = "jsval \<Rightarrow> rat option"

text \<open>Prebuild question metadata (\<open>opt.value ?? opt.text ?? ''\<close>).\<close>

definition metaOption :: "OptionDoc \<Rightarrow> MetaOption" where
  "metaOption opt =
     \<lparr>mo_value = (case opt_value opt of Some v \<Rightarrow> v
                   | None \<Rightarrow> (case opt_text opt of Some t \<Rightarrow> t | None \<Rightarrow> '''')),
      mo_text = opt_text opt\<rparr>"

definition metaOf :: "Question \<Rightarrow> QuestionMeta" where
  "metaOf q =
     \<lparr>m_questionId = q_id q, m_text = q_text q, m_type = q_type q, m_order = q_order q,
      m_options = map metaOption (q_options q)\<rparr>"

definition questionMeta :: "Question list \<Rightarrow> (string \<times> QuestionMeta) list" where
  "questionMeta qs = foldl (\<lambda>m q. entry_set m (q_id q) (metaOf q)) [] qs"

text \<open>Initialize per-question stats, one entry per value of \<open>questionMeta\<close>.\<close>

definition initStats :: "QuestionMeta \<Rightarrow> Stats" where
  "initStats q =
     \<lparr>s_questionId = m_questionId q, s_questionText = m_text q, s_type = m_type q,
      s_order = m_order q, reached = 0, totalAnswers = 0, textCount = 0,
      optionCounts = [], ratingCounts = []\<rparr>"

definition perQuestionStats_init :: "(string \<times> QuestionMeta) list \<Rightarrow> (string \<times> Stats) list" where
  "perQuestionStats_init meta =
     foldl (\<lambda>pq q. entry_set pq (m_questionId q) (initStats q)) [] (map snd meta)"

text \<open>Count only non-empty answers.\<close>

definition hasValue :: "jsval \<Rightarrow> bool" where
  "hasValue answer =
     (answer \<noteq> JUndefined \<and> answer \<noteq> JNull \<and>
      (case answer of JStr s \<Rightarrow> trim s \<noteq> '''' | _ \<Rightarrow> True))"

text \<open>\<open>map.set(key, (map.get(key) || 0) + 1)\<close>\<close>

definition increment :: "(string \<times> nat) list \<Rightarrow> string \<Rightarrow> (string \<times> nat) list" where
  "increment m key =
     (let prev = (case map_of m key of Some c \<Rightarrow> c | None \<Rightarrow> 0)
      in entry_set m key (prev + 1))"

definition rawValues :: "jsval \<Rightarrow> jsval list" where
  "rawValues answer = (case answer of JArr vs \<Rightarrow> vs | _ \<Rightarrow> [answer])"

definition is_choice :: "string \<Rightarrow> bool" where
  "is_choice qType = (qType = ''multiple_choice'' \<or> qType = ''ranking'')"

definition is_rating :: "string \<Rightarrow> bool" where
  "is_rating qType = (qType = ''rating'' \<or> qType = ''star_rating'')"

definition is_text :: "string \<Rightarrow> bool" where
  "is_text qType = (qType = ''short_text'' \<or> qType = ''long_text'')"

text \<open>The part of the answer callback after the \<open>hasValue\<close> test.\<close>

definition countAnswer :: "js_String \<Rightarrow> js_Number \<Rightarrow> Stats \<Rightarrow> jsval \<Rightarrow> Stats" where
  "countAnswer String Number stats0 answer =
     (let stats = stats0\<lparr>totalAnswers := totalAnswers stats0 + 1\<rparr>;
          qType = s_type stats
      in if is_choice qType then
           stats\<lparr>optionCounts := foldl increment (optionCounts stats) (map String (rawValues answer))\<rparr>
         else if is_rating qType then
           (case Number answer of
              None \<Rightarrow> stats
            | Some num \<Rightarrow> stats\<lparr>ratingCounts := increment (ratingCounts stats) (String (JNum num))\<rparr>)
         else if is_text qType then
           stats\<lparr>textCount := textCount stats + 1\<rparr>
         else stats)"

text \<open>
  The callback of \<open>(r.answers || []).forEach\<close>; its state is \<open>perQuestionStats\<close> and
  \<open>seenQuestionIds\<close>. The empty string is falsy, so an empty \<open>qId\<close> returns early.
\<close>

definition processAnswer ::
  "js_String \<Rightarrow> js_Number \<Rightarrow> (string \<times> Stats) list \<times> string list \<Rightarrow> Answer
     \<Rightarrow> (string \<times> Stats) list \<times> string list" where
  "processAnswer String Number st a =
     (let (perQuestionStats, seenQuestionIds) = st
      in case a_questionId a of
           None \<Rightarrow> st
         | Some qId \<Rightarrow>
             if qId = '''' then st
             else (case map_of perQuestionStats qId of
                     None \<Rightarrow> st
                   | Some stats \<Rightarrow>
                       let seen = Set_add seenQuestionIds qId
                       in if \<not> hasValue (a_answer a) then (perQuestionStats, seen)
                          else (entry_set perQuestionStats qId
                                  (countAnswer String Number stats (a_answer a)), seen)))"

text \<open>Funnel: how many users reached each question (appeared in answers).\<close>

definition markReached :: "(string \<times> Stats) list \<Rightarrow> string \<Rightarrow> (string \<times> Stats) list" where
  "markReached perQuestionStats qId =
     (case map_of perQuestionStats qId of
        None \<Rightarrow> perQuestionStats
      | Some stats \<Rightarrow> entry_set perQuestionStats qId (stats\<lparr>reached := reached stats + 1\<rparr>))"

record AggState =
  st_completedResponses :: nat
  st_partialResponses :: nat
  completionTimeSum :: rat
  completionTimeCount :: nat
  perQuestionStats :: "(string \<times> Stats) list"

text \<open>The callback of \<open>responses.forEach\<close>.\<close>

definition processResponse :: "js_String \<Rightarrow> js_Number \<Rightarrow> AggState \<Rightarrow> Response \<Rightarrow> AggState" where
  "processResponse String Number st r =
     (let st1 = (if r_isCompleted r
                 then st\<lparr>st_completedResponses := st_completedResponses st + 1\<rparr>
                 else st\<lparr>st_partialResponses := st_partialResponses st + 1\<rparr>);
          st2 = (case r_timeSpent r of
                   JNum t \<Rightarrow> st1\<lparr>completionTimeSum := completionTimeSum st1 + t,
                                 completionTimeCount := completionTimeCount st1 + 1\<rparr>
                 | _ \<Rightarrow> st1);
          (pq, seenQuestionIds) =
             foldl (processAnswer String Number) (perQuestionStats st2, []) (r_answers r)
      in st2\<lparr>perQuestionStats := foldl markReached pq seenQuestionIds\<rparr>)"

definition initialState :: "Question list \<Rightarrow> AggState" where
  "initialState qs =
     \<lparr>st_completedResponses = 0, st_partialResponses = 0, completionTimeSum = 0,
      completionTimeCount = 0,
      perQuestionStats = perQuestionStats_init (questionMeta qs)\<rparr>"

definition aggregate :: "js_String \<Rightarrow> js_Number \<Rightarrow> Question list \<Rightarrow> Response list \<Rightarrow> AggState" where
  "aggregate String Number qs responses =
     foldl (processResponse String Number) (initialState qs) responses"

section \<open>The report\<close>

text \<open>\<open>stats.totalAnswers ? (count / stats.totalAnswers) * 100 : 0\<close>\<close>

definition percentage :: "nat \<Rightarrow> nat \<Rightarrow> jsnum" where
  "percentage cnt tot =
     (if tot \<noteq> 0 then js_times (js_divide (of_nat cnt) (of_nat tot)) 100 else Finite 0)"

definition byOrder :: "Stats \<Rightarrow> Stats \<Rightarrow> rat" where
  "byOrder a b = of_int (s_order a - s_order b)"

definition funnelEntry :: "Stats \<Rightarrow> FunnelEntry" where
  "funnelEntry stats =
     \<lparr>f_questionId = s_questionId stats, f_questionText = s_questionText stats,
      f_order = s_order stats, f_reached = reached stats\<rparr>"

definition optionMetaByValue :: "MetaOption list \<Rightarrow> (string \<times> MetaOption) list" where
  "optionMetaByValue opts = foldl (\<lambda>m opt. entry_set m (mo_value opt) opt) [] opts"

text \<open>\<open>optMeta.text || value\<close>: a missing or empty text falls back to the value.\<close>

definition optionLabel :: "(string \<times> MetaOption) list \<Rightarrow> string \<Rightarrow> string" where
  "optionLabel optMetas val =
     (case map_of optMetas val of
        None \<Rightarrow> val
      | Some optMeta \<Rightarrow>
          (case mo_text optMeta of None \<Rightarrow> val | Some t \<Rightarrow> if t = '''' then val else t))"

definition choiceOption :: "(string \<times> MetaOption) list \<Rightarrow> nat \<Rightarrow> string \<times> nat \<Rightarrow> ChoiceOption" where
  "choiceOption optMetas tot e =
     \<lparr>o_value = fst e, o_label = optionLabel optMetas (fst e), o_count = snd e,
      o_percentage = percentage (snd e) tot\<rparr>"

definition byCountDesc :: "ChoiceOption \<Rightarrow> ChoiceOption \<Rightarrow> rat" where
  "byCountDesc a b = of_nat (o_count b) - of_nat (o_count a)"

definition ratingEntry :: "js_Number \<Rightarrow> nat \<Rightarrow> string \<times> nat \<Rightarrow> RatingEntry" where
  "ratingEntry Number tot e =
     \<lparr>d_value = Number (JStr (fst e)), d_count = snd e, d_percentage = percentage (snd e) tot\<rparr>"

definition byValue :: "RatingEntry \<Rightarrow> RatingEntry \<Rightarrow> rat" where
  "byValue a b =
     (case (d_value a, d_value b) of (Some x, Some y) \<Rightarrow> x - y | _ \<Rightarrow> 0)"

text \<open>
  The callback that builds one entry of \<open>questionsAnalytics\<close>. \<open>meta.options\<close> throws a
  TypeError when \<open>questionMeta\<close> has no entry for the question.
\<close>

definition questionAnalytics ::
  "js_Number \<Rightarrow> (string \<times> QuestionMeta) list \<Rightarrow> Stats \<Rightarrow> error + QuestionAnalytics" where
  "questionAnalytics Number qMeta stats =
     (let base = \<lambda>kind.
            \<lparr>qa_questionId = s_questionId stats, qa_questionText = s_questionText stats,
             qa_type = s_type stats, qa_order = s_order stats,
             qa_totalAnswers = totalAnswers stats, qa_kind = kind\<rparr>
      in if is_choice (s_type stats) then
           (case map_of qMeta (s_questionId stats) of
              None \<Rightarrow> Inl TypeError
            | Some meta \<Rightarrow>
                let options = map (choiceOption (optionMetaByValue (m_options meta))
                                     (totalAnswers stats)) (optionCounts stats)
                in Inr (base (Choice (js_sort byCountDesc options))))
         else if is_rating (s_type stats) then
           Inr (base (Rating (js_sort byValue
                  (map (ratingEntry Number (totalAnswers stats)) (ratingCounts stats)))))
         else if is_text (s_type stats) then Inr (base (Text (textCount stats)))
         else Inr (base Unknown))"

definition getAnalytics :: "js_String \<Rightarrow> js_Number \<Rightarrow> Survey \<Rightarrow> Response list \<Rightarrow> error + Report" where
  "getAnalytics String Number survey responses =
     (let st = aggregate String Number (sv_questions survey) responses;
          tot = \<lparr>totalResponses = length responses,
                 completedResponses = st_completedResponses st,
                 partialResponses = st_partialResponses st,
                 averageCompletionTimeSeconds =
                   (if completionTimeCount st > 0
                    then js_divide (completionTimeSum st) (of_nat (completionTimeCount st))
                    else Finite 0)\<rparr>;
          sorted_stats = js_sort byOrder (map snd (perQuestionStats st))
      in case map_throwing (questionAnalytics Number (questionMeta (sv_questions survey)))
                sorted_stats of
           Inl e \<Rightarrow> Inl e
         | Inr questionsAnalytics \<Rightarrow>
             Inr \<lparr>surveyId = sv_id survey, title = sv_title survey, status = sv_status survey,
                  createdAt = sv_createdAt survey, totals = tot,
                  funnel = map funnelEntry sorted_stats,
                  questions = questionsAnalytics\<rparr>)"

text \<open>
  An instance of the two conversions for the values of the examples: a string is itself,
  a natural number its decimal digits, and a string of decimal digits converts to that
  number. Other values are outside this instance (they convert to the empty string and
  to \<open>NaN\<close> here).
\<close>

fun digits :: "nat \<Rightarrow> string" where
  "digits n = (if n < 10 then [char_of (48 + n)] else digits (n div 10) @ [char_of (48 + n mod 10)])"

definition String_ex :: js_String where
  "String_ex v =
     (case v of
        JStr s \<Rightarrow> s
      | JNum x \<Rightarrow> (if 0 \<le> x \<and> x = of_int \<lfloor>x\<rfloor> then digits (nat \<lfloor>x\<rfloor>) else '''')
      | _ \<Rightarrow> '''')"

definition number_of_digits :: "string \<Rightarrow> rat option" where
  "number_of_digits s =
     (if s \<noteq> '''' \<and> list_all (\<lambda>c. 48 \<le> (of_char c :: nat) \<and> (of_char c :: nat) \<le> 57) s
      then Some (of_nat (foldl (\<lambda>n c. 10 * n + (of_char c - 48)) 0 s)) else None)"

definition Number_ex :: js_Number where
  "Number_ex v = (case v of JNum x \<Rightarrow> Some x | JStr s \<Rightarrow> number_of_digits (trim s) | _ \<Rightarrow> None)"

section \<open>Notions used to state the properties\<close>

text \<open>The count a tally holds for a key; a key that is absent counts 0.\<close>

definition tally :: "(string \<times> nat) list \<Rightarrow> string \<Rightarrow> nat" where
  "tally m k = (case map_of m k of Some c \<Rightarrow> c | None \<Rightarrow> 0)"

text \<open>An answer entry is for question \<open>q\<close> when its \<open>questionId\<close> is \<open>q\<close>; the empty id is
  never matched, as the source returns early on it.\<close>

definition matches :: "string \<Rightarrow> Answer \<Rightarrow> bool" where
  "matches q a = (q \<noteq> '''' \<and> a_questionId a = Some q)"

text \<open>A response in which question \<open>q\<close> appears among the answers.\<close>

definition answered :: "string \<Rightarrow> Response \<Rightarrow> bool" where
  "answered q r = list_ex (matches q) (r_answers r)"

text \<open>The values of the answers for \<open>q\<close> that pass the \<open>hasValue\<close> test, in array order.\<close>

definition countedValues :: "string \<Rightarrow> Answer list \<Rightarrow> jsval list" where
  "countedValues q as = map a_answer (filter (\<lambda>a. matches q a \<and> hasValue (a_answer a)) as)"

text \<open>What one response does to the statistics of question \<open>q\<close>.\<close>

definition responseStats :: "js_String \<Rightarrow> js_Number \<Rightarrow> string \<Rightarrow> Stats \<Rightarrow> Response \<Rightarrow> Stats" where
  "responseStats String Number q s r =
     (let s' = foldl (countAnswer String Number) s (countedValues q (r_answers r))
      in s'\<lparr>reached := reached s' + (if answered q r then 1 else 0)\<rparr>)"

text \<open>The counted answer values for \<open>q\<close> over all responses, in processing order.\<close>

definition countedAnswers :: "string \<Rightarrow> Response list \<Rightarrow> jsval list" where
  "countedAnswers q rs = concat (map (\<lambda>r. countedValues q (r_answers r)) rs)"

text \<open>The stringified selections for \<open>q\<close>: one per element of a list-valued counted answer,
  one per other counted answer.\<close>

definition selections :: "js_String \<Rightarrow> string \<Rightarrow> Response list \<Rightarrow> string list" where
  "selections String q rs = concat (map (\<lambda>v. map String (rawValues v)) (countedAnswers q rs))"

text \<open>The statistics of the question with metadata \<open>m\<close> after all responses, in closed form.\<close>

definition finalStats :: "js_String \<Rightarrow> js_Number \<Rightarrow> QuestionMeta \<Rightarrow> Response list \<Rightarrow> Stats" where
  "finalStats String Number m rs =
     (foldl (countAnswer String Number) (initStats m) (countedAnswers (m_questionId m) rs))
       \<lparr>reached := length (filter (answered (m_questionId m)) rs)\<rparr>"

text \<open>The \<open>timeSpent\<close> of a response when it is a number.\<close>

definition timeOf :: "Response \<Rightarrow> rat option" where
  "timeOf r = (case r_timeSpent r of JNum t \<Rightarrow> Some t | _ \<Rightarrow> None)"

text \<open>The comparator \<open>a.order - b.order\<close>, on the metadata.\<close>

definition byMetaOrder :: "QuestionMeta \<Rightarrow> QuestionMeta \<Rightarrow> rat" where
  "byMetaOrder a b = of_int (m_order a - m_order b)"

text \<open>The questions' metadata in the order of the report.\<close>

definition sortedMetas :: "Question list \<Rightarrow> QuestionMeta list" where
  "sortedMetas qs = js_sort byMetaOrder (map snd (questionMeta qs))"

text \<open>The distinct elements of a list in the order of their first occurrence.\<close>

definition firstSeen :: "'a list \<Rightarrow> 'a list" where
  "firstSeen xs = foldl Set_add [] xs"

text \<open>Example inputs and reports, used to evaluate the aggregation at concrete values.\<close>

definition ex_rating :: Question where
  "ex_rating = \<lparr>q_id = ''650000000000000000000001'', q_order = 0, q_type = ''rating'',
     q_text = ''Rate us'', q_options = []\<rparr>"

definition ex_choice :: Question where
  "ex_choice = \<lparr>q_id = ''650000000000000000000002'', q_order = 1, q_type = ''multiple_choice'',
     q_text = ''Pick'',
     q_options = [\<lparr>opt_text = Some ''Alpha'', opt_value = Some ''A''\<rparr>,
                  \<lparr>opt_text = Some ''Beta'', opt_value = Some ''B''\<rparr>,
                  \<lparr>opt_text = Some ''Gamma'', opt_value = Some ''C''\<rparr>]\<rparr>"

definition ex_survey :: "Question list \<Rightarrow> Survey" where
  "ex_survey qs = \<lparr>sv_id = ''640000000000000000000000'', sv_title = ''Feedback'',
     sv_status = ''published'', sv_createdAt = 0, sv_questions = qs\<rparr>"

definition ex_answer :: "Question \<Rightarrow> jsval \<Rightarrow> Answer" where
  "ex_answer q v = \<lparr>a_questionId = Some (q_id q), a_answer = v\<rparr>"

definition ex_response :: "bool \<Rightarrow> jsval \<Rightarrow> Answer list \<Rightarrow> Response" where
  "ex_response c t as = \<lparr>r_isCompleted = c, r_timeSpent = t, r_answers = as\<rparr>"

definition ex_report :: "Totals \<Rightarrow> FunnelEntry list \<Rightarrow> QuestionAnalytics list \<Rightarrow> Report" where
  "ex_report t f q = \<lparr>surveyId = ''640000000000000000000000'', title = ''Feedback'',
     status = ''published'', createdAt = 0, totals = t, funnel = f, questions = q\<rparr>"

definition ex_choice_responses :: "Response list" where
  "ex_choice_responses =
     [ex_response True (JNum 30) [ex_answer ex_choice (JStr ''B'')],
      ex_response False JUndefined [ex_answer ex_choice (JArr [JStr ''A'', JStr ''C''])],
      ex_response True (JNum 50) [ex_answer ex_choice (JStr ''C'')]]"

definition ex_choice_entry :: QuestionAnalytics where
  "ex_choice_entry =
     \<lparr>qa_questionId = q_id ex_choice, qa_questionText = ''Pick'',
      qa_type = ''multiple_choice'', qa_order = 1, qa_totalAnswers = 3,
      qa_kind = Choice
        [\<lparr>o_value = ''C'', o_label = ''Gamma'', o_count = 2, o_percentage = Finite (200 / 3)\<rparr>,
         \<lparr>o_value = ''B'', o_label = ''Beta'', o_count = 1, o_percentage = Finite (100 / 3)\<rparr>,
         \<lparr>o_value = ''A'', o_label = ''Alpha'', o_count = 1, o_percentage = Finite (100 / 3)\<rparr>]\<rparr>"

definition ex_choice_report :: Report where
  "ex_choice_report =
     ex_report \<lparr>totalResponses = 3, completedResponses = 2, partialResponses = 1,
                averageCompletionTimeSeconds = Finite 40\<rparr>
       [\<lparr>f_questionId = q_id ex_choice, f_questionText = ''Pick'', f_order = 1,
         f_reached = 3\<rparr>]
       [ex_choice_entry]"

definition ex_rating_responses :: "Response list" where
  "ex_rating_responses =
     [ex_response True (JNum 30) [ex_answer ex_rating (JStr ''abc'')],
      ex_response True (JNum 50) [ex_answer ex_rating (JNum 4)]]"

definition ex_rating_entry :: QuestionAnalytics where
  "ex_rating_entry =
     \<lparr>qa_questionId = q_id ex_rating, qa_questionText = ''Rate us'',
      qa_type = ''rating'', qa_order = 0, qa_totalAnswers = 2,
      qa_kind = Rating [\<lparr>d_value = Some 4, d_count = 1, d_percentage = Finite 50\<rparr>]\<rparr>"

definition ex_rating_report :: Report where
  "ex_rating_report =
     ex_report \<lparr>totalResponses = 2, completedResponses = 2, partialResponses = 0,
                averageCompletionTimeSeconds = Finite 40\<rparr>
       [\<lparr>f_questionId = q_id ex_rating, f_questionText = ''Rate us'', f_order = 0,
         f_reached = 2\<rparr>]
       [ex_rating_entry]"

text \<open>A number that is neither \<open>NaN\<close> nor an infinity.\<close>

definition is_finite :: "jsnum \<Rightarrow> bool" where
  "is_finite x = (case x of Finite a \<Rightarrow> True | _ \<Rightarrow> False)"






section \<open>Properties\<close>

subsection \<open>Association lists\<close>

lemma map_of_entry_set: "map_of (entry_set m k v) = (map_of m)(k \<mapsto> v)"
  by (induction m k v rule: entry_set.induct) auto

lemma keys_entry_set: "map fst (entry_set m k v) = Set_add (map fst m) k"
  by (induction m k v rule: entry_set.induct) (auto simp: Set_add_def)

lemma keys_entry_set_known: "map_of m k = Some w \<Longrightarrow> map fst (entry_set m k v) = map fst m"
  by (simp add: keys_entry_set Set_add_def) (metis domI dom_map_of_conv_image_fst set_map)

lemma distinct_Set_add: "distinct s \<Longrightarrow> distinct (Set_add s x)"
  by (simp add: Set_add_def)

lemma set_Set_add: "set (Set_add s x) = insert x (set s)"
  by (auto simp: Set_add_def)

lemma sum_entry_set:
  "sum_list (map snd (entry_set m k v)) + (case map_of m k of Some c \<Rightarrow> c | None \<Rightarrow> 0)
     = sum_list (map snd m) + (v :: nat)"
  by (induction m k v rule: entry_set.induct) auto

lemma sum_increment: "sum_list (map snd (increment m k)) = sum_list (map snd m) + 1"
  using sum_entry_set [of m k "(case map_of m k of Some c \<Rightarrow> c | None \<Rightarrow> 0) + 1"]
  by (simp add: increment_def Let_def)

lemma sum_foldl_increment:
  "sum_list (map snd (foldl increment m ks)) = sum_list (map snd m) + length ks"
  by (induction ks arbitrary: m) (simp_all add: sum_increment)

lemma keys_increment: "map fst (increment m k) = Set_add (map fst m) k"
  by (simp add: increment_def Let_def keys_entry_set)

lemma keys_foldl_increment: "map fst (foldl increment m ks) = foldl Set_add (map fst m) ks"
  by (induction ks arbitrary: m) (simp_all add: keys_increment)

lemma map_of_increment:
  "map_of (increment m k) k' =
     (if k' = k then Some ((case map_of m k of Some c \<Rightarrow> c | None \<Rightarrow> 0) + 1) else map_of m k')"
  by (simp add: increment_def Let_def map_of_entry_set)

lemma tally_increment: "tally (increment m k) k' = tally m k' + (if k' = k then 1 else 0)"
  by (simp add: tally_def map_of_increment)

lemma tally_foldl_increment: "tally (foldl increment m ks) k = tally m k + count_list ks k"
  by (induction ks arbitrary: m) (simp_all add: tally_increment)

lemma distinct_foldl_Set_add: "distinct s \<Longrightarrow> distinct (foldl Set_add s xs)"
  by (induction xs arbitrary: s) (simp_all add: distinct_Set_add)

lemma set_foldl_Set_add: "set (foldl Set_add s xs) = set s \<union> set xs"
  by (induction xs arbitrary: s) (auto simp: set_Set_add)

lemma entries_of_tally:
  "distinct (map fst m) \<Longrightarrow> map (\<lambda>e. (fst e, tally m (fst e))) m = m"
  by (rule map_idI) (auto simp: tally_def)

subsection \<open>Sorting\<close>

lemma sort_insert_insort_key:
  fixes f :: "'a \<Rightarrow> 'k::linorder"
  assumes "\<And>x y. (cmp x y \<le> 0) = (f x \<le> f y)"
  shows "sort_insert cmp x ys = insort_key f x ys"
  by (induction ys) (simp_all add: assms)

lemma js_sort_sort_key:
  fixes f :: "'a \<Rightarrow> 'k::linorder"
  assumes "\<And>x y. (cmp x y \<le> 0) = (f x \<le> f y)"
  shows "js_sort cmp xs = sort_key f xs"
proof -
  have "sort_insert cmp = insort_key f"
    by (intro ext) (rule sort_insert_insort_key [OF assms])
  then show ?thesis by (simp add: js_sort_def sort_key_def)
qed

lemma js_sort_unique:
  fixes f :: "'a \<Rightarrow> 'k::linorder"
  assumes "\<And>x y. (cmp x y \<le> 0) = (f x \<le> f y)"
      and "mset ys = mset xs" and "sorted (map f ys)"
      and "\<And>k. filter (\<lambda>x. f x = k) ys = filter (\<lambda>x. f x = k) xs"
  shows "js_sort cmp xs = ys"
proof -
  have "sort_key f xs = ys"
  proof (rule properties_for_sort_key)
    show "mset ys = mset xs" by (rule assms(2))
    show "sorted (map f ys)" by (rule assms(3))
    fix k assume "k \<in> set ys"
    from assms(4) [of "f k"]
    show "filter (\<lambda>x. f k = f x) ys = filter (\<lambda>x. f k = f x) xs"
      by (simp add: eq_commute)
  qed
  with js_sort_sort_key [of cmp f xs, OF assms(1)] show ?thesis by simp
qed

lemma mset_sort_insert: "mset (sort_insert cmp x ys) = add_mset x (mset ys)"
  by (induction ys) simp_all

lemma mset_js_sort: "mset (js_sort cmp xs) = mset xs"
  by (induction xs) (simp_all add: js_sort_def mset_sort_insert)

lemma set_js_sort: "set (js_sort cmp xs) = set xs"
  using mset_js_sort [of cmp xs] by (metis set_mset_mset)

lemma length_js_sort: "length (js_sort cmp xs) = length xs"
  using mset_js_sort [of cmp xs] by (metis size_mset)

lemma byCountDesc_key: "(byCountDesc a b \<le> 0) = (- int (o_count a) \<le> - int (o_count b))"
  by (simp add: byCountDesc_def)

lemma byOrder_key: "(byOrder a b \<le> 0) = (s_order a \<le> s_order b)"
  by (simp add: byOrder_def)

subsection \<open>Exceptions in a map\<close>

lemma map_throwing_Inr:
  "(\<And>x. x \<in> set xs \<Longrightarrow> \<exists>y. f x = Inr y) \<Longrightarrow> \<exists>ys. map_throwing f xs = Inr ys"
  by (induction xs) (fastforce split: sum.splits)+

lemma map_throwing_list_all2:
  "map_throwing f xs = Inr ys \<Longrightarrow> list_all2 (\<lambda>x y. f x = Inr y) xs ys"
  by (induction xs arbitrary: ys) (auto split: sum.splits)

subsection \<open>One answer\<close>

lemma key_of_lookup: "map_of m k = Some v \<Longrightarrow> k \<in> fst ` set m"
  by (metis domI dom_map_of_conv_image_fst)

lemma processAnswer_keys:
  "map fst (fst (processAnswer S N st a)) = map fst (fst st)"
  by (cases st)
     (auto simp: processAnswer_def Let_def keys_entry_set_known split: option.splits)

lemma processAnswer_lookup:
  assumes "map_of (fst st) q = Some s"
  shows "map_of (fst (processAnswer S N st a)) q =
           Some (if matches q a \<and> hasValue (a_answer a) then countAnswer S N s (a_answer a) else s)"
  using assms
  by (cases st)
     (auto simp: processAnswer_def Let_def matches_def map_of_entry_set split: option.splits)

lemma processAnswer_seen:
  "set (snd (processAnswer S N st a)) =
     set (snd st) \<union> {q. matches q a \<and> q \<in> set (map fst (fst st))}"
  by (cases st)
     (auto simp: processAnswer_def Let_def matches_def set_Set_add map_of_eq_None_iff
           split: option.splits intro: key_of_lookup)

lemma processAnswer_distinct:
  "distinct (snd st) \<Longrightarrow> distinct (snd (processAnswer S N st a))"
  by (cases st)
     (auto simp: processAnswer_def Let_def distinct_Set_add split: option.splits)

subsection \<open>The answers of one response\<close>

lemma answers_keys:
  "map fst (fst (foldl (processAnswer S N) st as)) = map fst (fst st)"
  by (induction as arbitrary: st) (simp_all add: processAnswer_keys)

lemma answers_lookup:
  "map_of (fst st) q = Some s \<Longrightarrow>
   map_of (fst (foldl (processAnswer S N) st as)) q =
     Some (foldl (countAnswer S N) s (countedValues q as))"
proof (induction as arbitrary: st s)
  case Nil
  then show ?case by (simp add: countedValues_def)
next
  case (Cons a as)
  from processAnswer_lookup [OF Cons.prems, of S N a] Cons.IH
  show ?case by (simp add: countedValues_def)
qed

lemma answers_seen:
  "set (snd (foldl (processAnswer S N) st as)) =
     set (snd st) \<union> {q. list_ex (matches q) as \<and> q \<in> set (map fst (fst st))}"
proof (induction as arbitrary: st)
  case Nil
  then show ?case by simp
next
  case (Cons a as)
  show ?case
    by (simp only: foldl_Cons Cons.IH processAnswer_seen processAnswer_keys) auto
qed

lemma answers_distinct:
  "distinct (snd st) \<Longrightarrow> distinct (snd (foldl (processAnswer S N) st as))"
  by (induction as arbitrary: st) (simp_all add: processAnswer_distinct)

subsection \<open>Marking the questions a response reached\<close>

lemma markReached_keys: "map fst (markReached pq k) = map fst pq"
  by (simp add: markReached_def keys_entry_set_known split: option.splits)

lemma markReached_lookup:
  "map_of pq q = Some s \<Longrightarrow>
   map_of (markReached pq k) q = Some (if q = k then s\<lparr>reached := reached s + 1\<rparr> else s)"
  by (auto simp: markReached_def map_of_entry_set split: option.splits)

lemma marks_keys: "map fst (foldl markReached pq seen) = map fst pq"
  by (induction seen arbitrary: pq) (simp_all add: markReached_keys)

lemma marks_lookup:
  "distinct seen \<Longrightarrow> map_of pq q = Some s \<Longrightarrow>
   map_of (foldl markReached pq seen) q =
     Some (s\<lparr>reached := reached s + (if q \<in> set seen then 1 else 0)\<rparr>)"
proof (induction seen arbitrary: pq s)
  case Nil
  then show ?case by simp
next
  case (Cons k seen)
  from Cons.prems have d: "distinct seen" and k: "k \<notin> set seen" by simp_all
  from markReached_lookup [OF Cons.prems(2), of k] Cons.IH [OF d]
  show ?case using k by auto
qed

subsection \<open>One response\<close>

lemma processResponse_keys:
  "map fst (perQuestionStats (processResponse S N st r)) = map fst (perQuestionStats st)"
  by (simp add: processResponse_def Let_def split_beta marks_keys answers_keys
           split: jsval.splits)

lemma countAnswer_reached: "reached (countAnswer S N s v) = reached s"
  by (simp add: countAnswer_def Let_def split: option.splits)

lemma countAnswers_reached: "reached (foldl (countAnswer S N) s vs) = reached s"
  by (induction vs arbitrary: s) (simp_all add: countAnswer_reached)

lemma processResponse_lookup:
  assumes "map_of (perQuestionStats st) q = Some s"
  shows "map_of (perQuestionStats (processResponse S N st r)) q = Some (responseStats S N q s r)"
proof -
  let ?st2 = "(perQuestionStats st, [] :: string list)"
  let ?res = "foldl (processAnswer S N) ?st2 (r_answers r)"
  have l: "map_of (fst ?res) q = Some (foldl (countAnswer S N) s (countedValues q (r_answers r)))"
    by (rule answers_lookup) (simp add: assms)
  have d: "distinct (snd ?res)" by (rule answers_distinct) simp
  have q: "q \<in> set (map fst (perQuestionStats st))"
    using assms by (simp add: key_of_lookup)
  have s: "(q \<in> set (snd ?res)) = answered q r"
    using q by (simp add: answers_seen answered_def)
  have "perQuestionStats (processResponse S N st r) = foldl markReached (fst ?res) (snd ?res)"
    by (simp add: processResponse_def Let_def split_beta split: jsval.splits)
  then show ?thesis
    using marks_lookup [OF d l] s by (simp add: responseStats_def Let_def)
qed

lemma responses_keys:
  "map fst (perQuestionStats (foldl (processResponse S N) st rs)) = map fst (perQuestionStats st)"
  by (induction rs arbitrary: st) (simp_all add: processResponse_keys)

lemma responses_lookup:
  "map_of (perQuestionStats st) q = Some s \<Longrightarrow>
   map_of (perQuestionStats (foldl (processResponse S N) st rs)) q =
     Some (foldl (responseStats S N q) s rs)"
proof (induction rs arbitrary: st s)
  case Nil
  then show ?case by simp
next
  case (Cons r rs)
  from processResponse_lookup [OF Cons.prems, of S N r] Cons.IH
  show ?case by simp
qed

subsection \<open>Building an object from a list\<close>

lemma build_distinct:
  "distinct (map fst m0) \<Longrightarrow> distinct (map fst (foldl (\<lambda>m x. entry_set m (f x) (g x)) m0 xs))"
  by (induction xs arbitrary: m0) (simp_all add: keys_entry_set distinct_Set_add)

lemma build_lookup:
  "map_of (foldl (\<lambda>m x. entry_set m (f x) (g x)) m0 xs) k = Some v \<Longrightarrow>
   map_of m0 k = Some v \<or> (\<exists>x \<in> set xs. f x = k \<and> v = g x)"
proof (induction xs arbitrary: m0)
  case Nil
  then show ?case by simp
next
  case (Cons x xs)
  from Cons.IH [of "entry_set m0 (f x) (g x)"] Cons.prems
  show ?case by (auto simp: map_of_entry_set split: if_splits)
qed

lemma build_keys:
  "fst ` set (foldl (\<lambda>m x. entry_set m (f x) (g x)) m0 xs) = fst ` set m0 \<union> f ` set xs"
proof (induction xs arbitrary: m0)
  case Nil
  then show ?case by simp
next
  case (Cons x xs)
  have "fst ` set (entry_set m0 (f x) (g x)) = insert (f x) (fst ` set m0)"
    using keys_entry_set [of m0 "f x" "g x"] set_Set_add [of "map fst m0" "f x"]
    by (metis set_map)
  then show ?case
    by (simp only: foldl_Cons Cons.IH) auto
qed

lemma questionMeta_distinct: "distinct (map fst (questionMeta qs))"
  unfolding questionMeta_def by (rule build_distinct) simp

lemma questionMeta_lookup:
  "map_of (questionMeta qs) k = Some m \<Longrightarrow> m_questionId m = k"
  unfolding questionMeta_def by (drule build_lookup) (auto simp: metaOf_def)

lemma questionMeta_keys: "fst ` set (questionMeta qs) = q_id ` set qs"
  unfolding questionMeta_def by (simp add: build_keys)

lemma init_distinct: "distinct (map fst (perQuestionStats_init meta))"
  unfolding perQuestionStats_init_def by (rule build_distinct) simp

lemma init_lookup:
  assumes d: "distinct (map fst meta)"
      and i: "\<And>k m. map_of meta k = Some m \<Longrightarrow> m_questionId m = k"
      and l: "map_of (perQuestionStats_init meta) k = Some s"
  shows "\<exists>m. map_of meta k = Some m \<and> s = initStats m"
proof -
  have "\<exists>m \<in> set (map snd meta). m_questionId m = k \<and> s = initStats m"
    using build_lookup [of m_questionId initStats "[]" "map snd meta" k s] l
    unfolding perQuestionStats_init_def by simp
  then obtain k' m where km: "(k', m) \<in> set meta" and k: "m_questionId m = k" and s: "s = initStats m"
    by auto
  from km d have "map_of meta k' = Some m" by simp
  with i k s show ?thesis by blast
qed

lemma init_keys:
  assumes d: "distinct (map fst meta)"
      and i: "\<And>k m. map_of meta k = Some m \<Longrightarrow> m_questionId m = k"
  shows "fst ` set (perQuestionStats_init meta) = fst ` set meta"
proof -
  have "m_questionId (snd e) = fst e" if "e \<in> set meta" for e
  proof -
    from that d have "map_of meta (fst e) = Some (snd e)"
      by (metis map_of_eq_Some_iff prod.collapse)
    then show ?thesis by (rule i)
  qed
  then have "(\<lambda>e. m_questionId (snd e)) ` set meta = fst ` set meta"
    by (intro image_cong) simp_all
  then show ?thesis
    unfolding perQuestionStats_init_def by (simp add: build_keys image_image)
qed

lemma init_lookup_qm:
  "map_of (perQuestionStats_init (questionMeta qs)) k = Some s \<Longrightarrow>
   \<exists>m. map_of (questionMeta qs) k = Some m \<and> s = initStats m"
  using init_lookup [OF questionMeta_distinct [of qs] questionMeta_lookup [of qs]] by blast

lemma init_keys_qm: "fst ` set (perQuestionStats_init (questionMeta qs)) = q_id ` set qs"
  using init_keys [OF questionMeta_distinct [of qs] questionMeta_lookup [of qs]]
  by (simp add: questionMeta_keys)

subsection \<open>The statistics of one question over all responses\<close>

lemma countAnswer_reached_update:
  "countAnswer S N (s\<lparr>reached := n\<rparr>) v = (countAnswer S N s v)\<lparr>reached := n\<rparr>"
  by (simp add: countAnswer_def Let_def split: option.splits)

lemma countAnswers_reached_update:
  "foldl (countAnswer S N) (s\<lparr>reached := n\<rparr>) vs = (foldl (countAnswer S N) s vs)\<lparr>reached := n\<rparr>"
  by (induction vs arbitrary: s) (simp_all add: countAnswer_reached_update)

lemma countAnswer_fixed:
  "s_questionId (countAnswer S N s v) = s_questionId s"
  "s_questionText (countAnswer S N s v) = s_questionText s"
  "s_type (countAnswer S N s v) = s_type s"
  "s_order (countAnswer S N s v) = s_order s"
  by (simp_all add: countAnswer_def Let_def split: option.splits)

lemma countAnswers_fixed:
  "s_questionId (foldl (countAnswer S N) s vs) = s_questionId s"
  "s_questionText (foldl (countAnswer S N) s vs) = s_questionText s"
  "s_type (foldl (countAnswer S N) s vs) = s_type s"
  "s_order (foldl (countAnswer S N) s vs) = s_order s"
  by (induction vs arbitrary: s) (simp_all add: countAnswer_fixed)

lemma countAnswers_totalAnswers:
  "totalAnswers (foldl (countAnswer S N) s vs) = totalAnswers s + length vs"
  by (induction vs arbitrary: s) (simp_all add: countAnswer_def Let_def split: option.splits)

lemma countAnswers_optionCounts:
  "optionCounts (foldl (countAnswer S N) s vs) =
     (if is_choice (s_type s)
      then foldl increment (optionCounts s) (concat (map (\<lambda>v. map S (rawValues v)) vs))
      else optionCounts s)"
proof (induction vs arbitrary: s)
  case Nil
  then show ?case by simp
next
  case (Cons v vs)
  show ?case
    by (simp add: Cons.IH countAnswer_fixed)
       (simp add: countAnswer_def Let_def split: option.splits)
qed

lemma choice_not_rating: "is_choice t \<Longrightarrow> \<not> is_rating t"
  by (auto simp: is_choice_def is_rating_def)

lemma responsesStats_normal:
  "foldl (responseStats S N q) s rs =
     (foldl (countAnswer S N) s (countedAnswers q rs))
       \<lparr>reached := reached s + length (filter (answered q) rs)\<rparr>"
proof (induction rs arbitrary: s)
  case Nil
  then show ?case by (simp add: countedAnswers_def)
next
  case (Cons r rs)
  let ?s = "responseStats S N q s r"
  have "foldl (responseStats S N q) s (r # rs) = foldl (responseStats S N q) ?s rs" by simp
  also have "\<dots> = (foldl (countAnswer S N) ?s (countedAnswers q rs))
                      \<lparr>reached := reached ?s + length (filter (answered q) rs)\<rparr>"
    by (rule Cons.IH)
  also have "\<dots> = (foldl (countAnswer S N) s (countedAnswers q (r # rs)))
                      \<lparr>reached := reached s + length (filter (answered q) (r # rs))\<rparr>"
    by (simp add: responseStats_def Let_def countedAnswers_def
          countAnswers_reached_update countAnswers_reached)
  finally show ?case .
qed

lemma aggregate_keys_init:
  "map fst (perQuestionStats (aggregate S N qs rs)) = map fst (perQuestionStats_init (questionMeta qs))"
  by (simp add: aggregate_def responses_keys initialState_def)

lemma aggregate_keys:
  "fst ` set (perQuestionStats (aggregate S N qs rs)) = q_id ` set qs"
  using aggregate_keys_init [of S N qs rs] init_keys_qm [of qs] by (metis set_map)

lemma aggregate_distinct:
  "distinct (map fst (perQuestionStats (aggregate S N qs rs)))"
  by (simp only: aggregate_keys_init init_distinct)

lemma aggregate_lookup:
  assumes "map_of (perQuestionStats (aggregate S N qs rs)) k = Some s"
  shows "\<exists>m. map_of (questionMeta qs) k = Some m \<and> m_questionId m = k \<and> s = finalStats S N m rs"
proof -
  let ?init = "perQuestionStats_init (questionMeta qs)"
  from assms have "k \<in> set (map fst (perQuestionStats (aggregate S N qs rs)))"
    by (simp add: key_of_lookup)
  then have "k \<in> set (map fst ?init)"
    by (simp only: aggregate_keys_init)
  then obtain s0 where s0: "map_of ?init k = Some s0"
    by (metis map_of_eq_None_iff not_Some_eq set_map)
  from init_lookup_qm [OF s0]
  obtain m where m: "map_of (questionMeta qs) k = Some m" and i: "s0 = initStats m" by blast
  have k: "m_questionId m = k" by (rule questionMeta_lookup [OF m])
  have "perQuestionStats (initialState qs) = ?init" by (simp add: initialState_def)
  with s0 have "map_of (perQuestionStats (initialState qs)) k = Some s0" by simp
  from responses_lookup [OF this, of S N rs] assms
  have "s = foldl (responseStats S N k) s0 rs" by (simp add: aggregate_def)
  then have "s = finalStats S N m rs"
    by (simp add: responsesStats_normal finalStats_def i k initStats_def)
  with m k show ?thesis by blast
qed

lemma aggregate_values:
  assumes "s \<in> set (map snd (perQuestionStats (aggregate S N qs rs)))"
  shows "\<exists>m. map_of (questionMeta qs) (s_questionId s) = Some m \<and> m_questionId m = s_questionId s
             \<and> s = finalStats S N m rs"
proof -
  from assms obtain k where "(k, s) \<in> set (perQuestionStats (aggregate S N qs rs))" by auto
  with aggregate_distinct [of S N qs rs]
  have "map_of (perQuestionStats (aggregate S N qs rs)) k = Some s" by simp
  from aggregate_lookup [OF this] obtain m where
    m: "map_of (questionMeta qs) k = Some m" "m_questionId m = k" "s = finalStats S N m rs" by blast
  have "s_questionId (finalStats S N m rs) = m_questionId m"
    by (simp add: finalStats_def countAnswers_fixed initStats_def)
  with m show ?thesis by auto
qed

subsection \<open>The running totals\<close>

lemma processResponse_totals:
  "st_completedResponses (processResponse S N st r) =
     st_completedResponses st + (if r_isCompleted r then 1 else 0)"
  "st_partialResponses (processResponse S N st r) =
     st_partialResponses st + (if r_isCompleted r then 0 else 1)"
  "completionTimeSum (processResponse S N st r) =
     completionTimeSum st + (case timeOf r of Some t \<Rightarrow> t | None \<Rightarrow> 0)"
  "completionTimeCount (processResponse S N st r) =
     completionTimeCount st + (case timeOf r of Some t \<Rightarrow> 1 | None \<Rightarrow> 0)"
  by (simp_all add: processResponse_def Let_def split_beta timeOf_def split: jsval.splits)

lemma responses_totals:
  "st_completedResponses (foldl (processResponse S N) st rs) =
     st_completedResponses st + length (filter r_isCompleted rs)"
  "st_partialResponses (foldl (processResponse S N) st rs) =
     st_partialResponses st + length (filter (\<lambda>r. \<not> r_isCompleted r) rs)"
  "completionTimeSum (foldl (processResponse S N) st rs) =
     completionTimeSum st + sum_list (List.map_filter timeOf rs)"
  "completionTimeCount (foldl (processResponse S N) st rs) =
     completionTimeCount st + length (List.map_filter timeOf rs)"
  by (induction rs arbitrary: st)
     (simp_all add: processResponse_totals List.map_filter_simps split: option.splits)

lemma aggregate_totals:
  "st_completedResponses (aggregate S N qs rs) = length (filter r_isCompleted rs)"
  "st_partialResponses (aggregate S N qs rs) = length (filter (\<lambda>r. \<not> r_isCompleted r) rs)"
  "completionTimeSum (aggregate S N qs rs) = sum_list (List.map_filter timeOf rs)"
  "completionTimeCount (aggregate S N qs rs) = length (List.map_filter timeOf rs)"
  by (simp_all add: aggregate_def responses_totals initialState_def)

subsection \<open>The accumulators in closed form\<close>

lemma entry_set_new: "k \<notin> fst ` set m \<Longrightarrow> entry_set m k v = m @ [(k, v)]"
  by (induction m k v rule: entry_set.induct) auto

lemma build_append:
  "distinct (map f xs) \<Longrightarrow> fst ` set m0 \<inter> f ` set xs = {} \<Longrightarrow>
   foldl (\<lambda>m x. entry_set m (f x) (g x)) m0 xs = m0 @ map (\<lambda>x. (f x, g x)) xs"
proof (induction xs arbitrary: m0)
  case Nil
  then show ?case by simp
next
  case (Cons x xs)
  from Cons.prems have n: "f x \<notin> fst ` set m0" by auto
  have "foldl (\<lambda>m x. entry_set m (f x) (g x)) (m0 @ [(f x, g x)]) xs
          = (m0 @ [(f x, g x)]) @ map (\<lambda>x. (f x, g x)) xs"
    using Cons.prems by (intro Cons.IH) auto
  then show ?case by (simp add: entry_set_new [OF n])
qed

lemma init_closed:
  "perQuestionStats_init (questionMeta qs) = map (\<lambda>e. (fst e, initStats (snd e))) (questionMeta qs)"
proof -
  let ?qm = "questionMeta qs"
  have k: "m_questionId (snd e) = fst e" if "e \<in> set ?qm" for e
  proof -
    from that questionMeta_distinct [of qs] have "map_of ?qm (fst e) = Some (snd e)"
      by (metis map_of_eq_Some_iff prod.collapse)
    then show ?thesis by (rule questionMeta_lookup)
  qed
  then have "map m_questionId (map snd ?qm) = map fst ?qm" by simp
  with questionMeta_distinct [of qs] have d: "distinct (map m_questionId (map snd ?qm))"
    by (simp only:)
  have "perQuestionStats_init ?qm = [] @ map (\<lambda>m. (m_questionId m, initStats m)) (map snd ?qm)"
    unfolding perQuestionStats_init_def by (rule build_append [OF d]) simp
  also have "\<dots> = map (\<lambda>e. (fst e, initStats (snd e))) ?qm"
    using k by simp
  finally show ?thesis .
qed

lemma entries_by_key:
  "distinct (map fst m) \<Longrightarrow> map (\<lambda>e. (fst e, the (map_of m (fst e)))) m = m"
  by (rule map_idI) auto

lemma aggregate_closed:
  "perQuestionStats (aggregate S N qs rs) =
     map (\<lambda>e. (fst e, finalStats S N (snd e) rs)) (questionMeta qs)"
proof -
  let ?pq = "perQuestionStats (aggregate S N qs rs)" and ?qm = "questionMeta qs"
  have keys: "map fst ?pq = map fst ?qm"
    by (simp add: aggregate_keys_init init_closed comp_def)
  have len: "length ?pq = length ?qm" using keys by (metis length_map)
  show ?thesis
  proof (rule nth_equalityI)
    show "length ?pq = length (map (\<lambda>e. (fst e, finalStats S N (snd e) rs)) ?qm)"
      using len by simp
  next
    fix i assume i: "i < length ?pq"
    obtain k s where ks: "?pq ! i = (k, s)" by (cases "?pq ! i")
    obtain k' m where km: "?qm ! i = (k', m)" by (cases "?qm ! i")
    from keys i len have "fst (?pq ! i) = fst (?qm ! i)" by (metis nth_map)
    with ks km have kk: "k' = k" by simp
    from i ks have "(k, s) \<in> set ?pq" by (metis nth_mem)
    with aggregate_distinct [of S N qs rs] have "map_of ?pq k = Some s" by simp
    from aggregate_lookup [OF this] obtain m' where
      m': "map_of ?qm k = Some m'" "s = finalStats S N m' rs" by blast
    from i len km kk have "(k, m) \<in> set ?qm" by (metis nth_mem)
    with questionMeta_distinct [of qs] have "map_of ?qm k = Some m" by simp
    with m' have "s = finalStats S N m rs" by simp
    with ks km kk i len
    show "?pq ! i = map (\<lambda>e. (fst e, finalStats S N (snd e) rs)) ?qm ! i" by simp
  qed
qed

lemma aggregate_stats_list:
  "map snd (perQuestionStats (aggregate S N qs rs)) =
     map (\<lambda>m. finalStats S N m rs) (map snd (questionMeta qs))"
  by (simp add: aggregate_closed comp_def)

lemma sort_insert_map:
  assumes "\<And>x y. cmp (f x) (f y) = cmp' x y"
  shows "sort_insert cmp (f x) (map f ys) = map f (sort_insert cmp' x ys)"
  by (induction ys) (simp_all add: assms)

lemma js_sort_map:
  assumes "\<And>x y. cmp (f x) (f y) = cmp' x y"
  shows "js_sort cmp (map f xs) = map f (js_sort cmp' xs)"
proof (induction xs)
  case Nil
  then show ?case by (simp add: js_sort_def)
next
  case (Cons x xs)
  have "sort_insert cmp (f x) (map f (js_sort cmp' xs)) = map f (sort_insert cmp' x (js_sort cmp' xs))"
    by (rule sort_insert_map) (rule assms)
  with Cons show ?case by (simp add: js_sort_def)
qed

lemma finalStats_fixed:
  "s_questionId (finalStats S N m rs) = m_questionId m"
  "s_questionText (finalStats S N m rs) = m_text m"
  "s_type (finalStats S N m rs) = m_type m"
  "s_order (finalStats S N m rs) = m_order m"
  "reached (finalStats S N m rs) = length (filter (answered (m_questionId m)) rs)"
  "totalAnswers (finalStats S N m rs) = length (countedAnswers (m_questionId m) rs)"
  by (simp_all add: finalStats_def countAnswers_fixed countAnswers_totalAnswers initStats_def)

lemma sorted_stats_closed:
  "js_sort byOrder (map snd (perQuestionStats (aggregate S N qs rs))) =
     map (\<lambda>m. finalStats S N m rs) (js_sort byMetaOrder (map snd (questionMeta qs)))"
  unfolding aggregate_stats_list
  by (rule js_sort_map) (simp add: byOrder_def byMetaOrder_def finalStats_fixed)

subsection \<open>The report in closed form\<close>

lemma sortedMetas_lookup:
  assumes "m \<in> set (sortedMetas qs)"
  shows "map_of (questionMeta qs) (m_questionId m) = Some m"
proof -
  from assms have "m \<in> set (map snd (questionMeta qs))"
    by (simp only: sortedMetas_def set_js_sort)
  then obtain k where k: "(k, m) \<in> set (questionMeta qs)" by auto
  with questionMeta_distinct [of qs] have l: "map_of (questionMeta qs) k = Some m" by simp
  from questionMeta_lookup [OF l] l show ?thesis by simp
qed

lemma questionAnalytics_Inr:
  "map_of qMeta (s_questionId s) = Some meta \<Longrightarrow> \<exists>e. questionAnalytics N qMeta s = Inr e"
  by (simp add: questionAnalytics_def Let_def)

lemma questions_return:
  "\<exists>es. map_throwing (questionAnalytics N (questionMeta qs))
           (map (\<lambda>m. finalStats S N m rs) (sortedMetas qs)) = Inr es"
proof (rule map_throwing_Inr)
  fix s assume "s \<in> set (map (\<lambda>m. finalStats S N m rs) (sortedMetas qs))"
  then obtain m where m: "m \<in> set (sortedMetas qs)" and s: "s = finalStats S N m rs" by auto
  from sortedMetas_lookup [OF m] have "map_of (questionMeta qs) (s_questionId s) = Some m"
    by (simp add: s finalStats_fixed)
  then show "\<exists>e. questionAnalytics N (questionMeta qs) s = Inr e"
    by (rule questionAnalytics_Inr)
qed

lemma getAnalytics_returns: "\<exists>rep. getAnalytics S N sv rs = Inr rep"
proof -
  from questions_return [of N "sv_questions sv" S rs] obtain es where
    "map_throwing (questionAnalytics N (questionMeta (sv_questions sv)))
       (map (\<lambda>m. finalStats S N m rs) (sortedMetas (sv_questions sv))) = Inr es" ..
  then show ?thesis
    by (simp add: getAnalytics_def Let_def sorted_stats_closed sortedMetas_def)
qed

lemma getAnalytics_closed:
  assumes "getAnalytics S N sv rs = Inr rep"
  shows "funnel rep = map (\<lambda>m. funnelEntry (finalStats S N m rs)) (sortedMetas (sv_questions sv))"
    and "list_all2 (\<lambda>m e. questionAnalytics N (questionMeta (sv_questions sv)) (finalStats S N m rs) = Inr e)
           (sortedMetas (sv_questions sv)) (questions rep)"
    and "totals rep =
           \<lparr>totalResponses = length rs,
            completedResponses = length (filter r_isCompleted rs),
            partialResponses = length (filter (\<lambda>r. \<not> r_isCompleted r) rs),
            averageCompletionTimeSeconds =
              Finite (if List.map_filter timeOf rs \<noteq> []
                      then sum_list (List.map_filter timeOf rs)
                             / of_nat (length (List.map_filter timeOf rs))
                      else 0)\<rparr>"
proof -
  let ?qs = "sv_questions sv"
  let ?ss = "map (\<lambda>m. finalStats S N m rs) (sortedMetas ?qs)"
  from assms obtain es where
    es: "map_throwing (questionAnalytics N (questionMeta ?qs)) ?ss = Inr es"
    and rep: "rep = \<lparr>surveyId = sv_id sv, title = sv_title sv, status = sv_status sv,
                createdAt = sv_createdAt sv,
                totals = \<lparr>totalResponses = length rs,
                  completedResponses = st_completedResponses (aggregate S N ?qs rs),
                  partialResponses = st_partialResponses (aggregate S N ?qs rs),
                  averageCompletionTimeSeconds =
                    (if completionTimeCount (aggregate S N ?qs rs) > 0
                     then js_divide (completionTimeSum (aggregate S N ?qs rs))
                            (of_nat (completionTimeCount (aggregate S N ?qs rs)))
                     else Finite 0)\<rparr>,
                funnel = map funnelEntry ?ss, questions = es\<rparr>"
    by (auto simp: getAnalytics_def Let_def sorted_stats_closed sortedMetas_def split: sum.splits)
  show "funnel rep = map (\<lambda>m. funnelEntry (finalStats S N m rs)) (sortedMetas ?qs)"
    by (simp add: rep comp_def)
  from map_throwing_list_all2 [OF es]
  show "list_all2 (\<lambda>m e. questionAnalytics N (questionMeta ?qs) (finalStats S N m rs) = Inr e)
          (sortedMetas ?qs) (questions rep)"
    by (simp add: rep list_all2_map1)
  show "totals rep =
           \<lparr>totalResponses = length rs,
            completedResponses = length (filter r_isCompleted rs),
            partialResponses = length (filter (\<lambda>r. \<not> r_isCompleted r) rs),
            averageCompletionTimeSeconds =
              Finite (if List.map_filter timeOf rs \<noteq> []
                      then sum_list (List.map_filter timeOf rs)
                             / of_nat (length (List.map_filter timeOf rs))
                      else 0)\<rparr>"
    by (simp add: rep aggregate_totals js_divide_def)
qed

lemma report_funnel_entry:
  assumes "getAnalytics S N sv rs = Inr rep" and "f \<in> set (funnel rep)"
  shows "f_reached f = length (filter (answered (f_questionId f)) rs)"
  using assms(2) unfolding getAnalytics_closed(1) [OF assms(1)]
  by (auto simp: funnelEntry_def finalStats_fixed)

lemma report_question_entry:
  assumes "getAnalytics S N sv rs = Inr rep" and "e \<in> set (questions rep)"
  shows "\<exists>m. m \<in> set (sortedMetas (sv_questions sv)) \<and>
             questionAnalytics N (questionMeta (sv_questions sv)) (finalStats S N m rs) = Inr e"
proof -
  from assms(2) obtain i where i: "i < length (questions rep)" "questions rep ! i = e"
    by (metis in_set_conv_nth)
  from getAnalytics_closed(2) [OF assms(1)] i
  have "sortedMetas (sv_questions sv) ! i \<in> set (sortedMetas (sv_questions sv))"
       "questionAnalytics N (questionMeta (sv_questions sv))
          (finalStats S N (sortedMetas (sv_questions sv) ! i) rs) = Inr e"
    by (auto simp: list_all2_conv_all_nth)
  then show ?thesis by blast
qed

lemma questionAnalytics_base:
  assumes "questionAnalytics N qMeta s = Inr e"
  shows "qa_questionId e = s_questionId s" "qa_type e = s_type s" "qa_totalAnswers e = totalAnswers s"
        "qa_order e = s_order s"
  using assms
  by (auto simp: questionAnalytics_def Let_def split: if_splits option.splits)

lemma questionAnalytics_choice:
  assumes "questionAnalytics N qMeta s = Inr e" and "is_choice (s_type s)"
  shows "\<exists>meta :: QuestionMeta. qa_kind e = Choice (js_sort byCountDesc
            (map (choiceOption (optionMetaByValue (m_options meta)) (totalAnswers s)) (optionCounts s)))"
proof (cases "map_of qMeta (s_questionId s)")
  case None
  with assms show ?thesis by (simp add: questionAnalytics_def Let_def)
next
  case (Some meta)
  with assms have "qa_kind e = Choice (js_sort byCountDesc
      (map (choiceOption (optionMetaByValue (m_options meta)) (totalAnswers s)) (optionCounts s)))"
    by (auto simp: questionAnalytics_def Let_def)
  then show ?thesis ..
qed

lemma questionAnalytics_rating:
  assumes "questionAnalytics N qMeta s = Inr e" and "is_rating (s_type s)"
  shows "qa_kind e = Rating (js_sort byValue
            (map (ratingEntry N (totalAnswers s)) (ratingCounts s)))"
  using assms choice_not_rating [of "s_type s"]
  by (auto simp: questionAnalytics_def Let_def split: if_splits option.splits)

lemma finalStats_optionCounts:
  "is_choice (m_type m) \<Longrightarrow>
   optionCounts (finalStats S N m rs) = foldl increment [] (selections S (m_questionId m) rs)"
  by (simp add: finalStats_def countAnswers_optionCounts initStats_def selections_def)

lemma countAnswers_ratingCounts:
  "is_rating (s_type s) \<Longrightarrow>
   ratingCounts (foldl (countAnswer S N) s vs) =
     foldl increment (ratingCounts s) (map (\<lambda>n. S (JNum n)) (List.map_filter N vs))"
proof (induction vs arbitrary: s)
  case Nil
  then show ?case by (simp add: List.map_filter_simps)
next
  case (Cons v vs)
  from Cons.prems have t: "is_rating (s_type (countAnswer S N s v))"
    by (simp add: countAnswer_fixed)
  from Cons.prems choice_not_rating [of "s_type s"]
  have "ratingCounts (countAnswer S N s v) =
          (case N v of None \<Rightarrow> ratingCounts s
           | Some n \<Rightarrow> increment (ratingCounts s) (S (JNum n)))"
    by (auto simp: countAnswer_def Let_def split: option.splits)
  then show ?case
    by (simp add: Cons.IH [OF t] List.map_filter_simps split: option.splits)
qed

lemma finalStats_ratingCounts:
  "is_rating (m_type m) \<Longrightarrow>
   ratingCounts (finalStats S N m rs) =
     foldl increment [] (map (\<lambda>n. S (JNum n)) (List.map_filter N (countedAnswers (m_questionId m) rs)))"
  by (simp add: finalStats_def countAnswers_ratingCounts initStats_def)

subsection \<open>Tallies\<close>

lemma firstSeen_remdups: "firstSeen xs = rev (remdups (rev xs))"
proof (induction xs rule: rev_induct)
  case Nil
  then show ?case by (simp add: firstSeen_def)
next
  case (snoc x xs)
  have "set (foldl Set_add [] xs) = set xs" by (simp add: set_foldl_Set_add)
  with snoc show ?case by (simp add: firstSeen_def Set_add_def)
qed

lemma tally_keys: "map fst (foldl increment [] ks) = firstSeen ks"
  by (simp add: keys_foldl_increment firstSeen_def)

lemma tally_distinct: "distinct (map fst (foldl increment [] ks))"
  by (simp add: keys_foldl_increment distinct_foldl_Set_add)

lemma tally_value: "tally (foldl increment [] ks) k = count_list ks k"
  by (simp add: tally_foldl_increment) (simp add: tally_def)

lemma tally_entries:
  "foldl increment [] ks = map (\<lambda>k. (k, count_list ks k)) (firstSeen ks)"
proof -
  let ?m = "foldl increment [] ks"
  have "?m = map (\<lambda>e. (fst e, tally ?m (fst e))) ?m"
    by (rule entries_of_tally [symmetric]) (rule tally_distinct)
  also have "\<dots> = map (\<lambda>k. (k, tally ?m k)) (map fst ?m)" by (simp add: comp_def)
  also have "\<dots> = map (\<lambda>k. (k, count_list ks k)) (firstSeen ks)"
    by (simp only: tally_keys tally_value)
  finally show ?thesis .
qed

lemma tally_sum: "sum_list (map snd (foldl increment [] ks)) = length ks"
  by (simp add: sum_foldl_increment)

subsection \<open>Sums over a sorted list\<close>

lemma sum_list_js_sort: "sum_list (map f (js_sort cmp xs)) = sum_list (map (f :: 'a \<Rightarrow> nat) xs)"
proof -
  have "mset (map f (js_sort cmp xs)) = mset (map f xs)"
    by (simp add: mset_js_sort)
  then show ?thesis by (metis sum_mset_sum_list)
qed

lemma byCountDesc_sort:
  "js_sort byCountDesc xs = sort_key (\<lambda>o'. - int (o_count o')) xs"
  by (rule js_sort_sort_key) (rule byCountDesc_key)

lemma byCountDesc_sorted:
  "sorted_wrt (\<lambda>a b. o_count b \<le> o_count a) (js_sort byCountDesc xs)"
proof -
  have "sorted (map (\<lambda>o'. - int (o_count o')) (js_sort byCountDesc xs))"
    by (simp only: byCountDesc_sort sorted_sort_key)
  then show ?thesis by (simp add: sorted_map)
qed

lemma byCountDesc_stable:
  "filter (\<lambda>o'. o_count o' = c) (js_sort byCountDesc xs) = filter (\<lambda>o'. o_count o' = c) xs"
proof -
  have "filter (\<lambda>o'. - int (o_count o') = - int c) (js_sort byCountDesc xs)
          = filter (\<lambda>o'. - int (o_count o') = - int c) xs"
    by (simp only: byCountDesc_sort sort_key_stable)
  then show ?thesis by simp
qed

subsection \<open>Empty values\<close>

lemma hasValue_iff:
  "hasValue v = (\<not> (v = JUndefined \<or> v = JNull \<or> (\<exists>s. v = JStr s \<and> trim s = '''')))"
  by (cases v) (simp_all add: hasValue_def)

lemma questionAnalytics_reached:
  "questionAnalytics N qMeta (s\<lparr>reached := n\<rparr>) = questionAnalytics N qMeta s"
  by (simp add: questionAnalytics_def Let_def split: option.splits)

lemma finalStats_without_reached:
  "countedAnswers (m_questionId m) rs' = countedAnswers (m_questionId m) rs \<Longrightarrow>
   questionAnalytics N qMeta (finalStats S N m rs') = questionAnalytics N qMeta (finalStats S N m rs)"
  by (simp add: finalStats_def questionAnalytics_reached)

lemma countedAnswers_split:
  "countedAnswers q (rs1 @ r # rs2) =
     countedAnswers q rs1 @ countedValues q (r_answers r) @ countedAnswers q rs2"
  by (simp add: countedAnswers_def)

lemma countedValues_drop:
  "\<not> hasValue (a_answer a) \<Longrightarrow> countedValues q (as1 @ a # as2) = countedValues q (as1 @ as2)"
  by (simp add: countedValues_def)

lemma list_all2_functional:
  "list_all2 (\<lambda>x y. f x = Inr y) xs ys \<Longrightarrow> list_all2 (\<lambda>x y. f x = Inr y) xs zs \<Longrightarrow> ys = zs"
proof (induction xs arbitrary: ys zs)
  case Nil
  then show ?case by simp
next
  case (Cons x xs)
  then show ?case by (auto simp: list_all2_Cons1)
qed

subsection \<open>Answers for unknown questions\<close>

lemma processAnswer_unknown:
  assumes "\<And>k. a_questionId a = Some k \<Longrightarrow> k \<notin> fst ` set (fst st)"
  shows "processAnswer S N st a = st"
proof (cases "a_questionId a")
  case None
  then show ?thesis by (cases st) (simp add: processAnswer_def)
next
  case (Some k)
  with assms have "k \<notin> fst ` set (fst st)" by simp
  then have "map_of (fst st) k = None" by (simp add: map_of_eq_None_iff)
  with Some show ?thesis by (cases st) (simp add: processAnswer_def)
qed

lemma answers_unknown:
  assumes "\<And>k. a_questionId a = Some k \<Longrightarrow> k \<notin> fst ` set (fst st)"
  shows "foldl (processAnswer S N) st (as1 @ a # as2) = foldl (processAnswer S N) st (as1 @ as2)"
proof -
  let ?st1 = "foldl (processAnswer S N) st as1"
  have "fst ` set (fst ?st1) = fst ` set (fst st)"
    using answers_keys [of S N st as1] by (metis set_map)
  with assms have "processAnswer S N ?st1 a = ?st1"
    by (intro processAnswer_unknown) simp
  then show ?thesis by simp
qed

lemma processResponse_unknown:
  assumes "\<And>k. a_questionId a = Some k \<Longrightarrow> k \<notin> fst ` set (perQuestionStats st)"
  shows "processResponse S N st (r\<lparr>r_answers := as1 @ a # as2\<rparr>)
           = processResponse S N st (r\<lparr>r_answers := as1 @ as2\<rparr>)"
proof -
  have "foldl (processAnswer S N) (pq, []) (as1 @ a # as2)
          = foldl (processAnswer S N) (pq, []) (as1 @ as2)"
    if "fst ` set pq = fst ` set (perQuestionStats st)" for pq
    using that assms by (intro answers_unknown) simp
  then show ?thesis
    by (simp add: processResponse_def Let_def split: jsval.splits)
qed

lemma aggregate_unknown:
  assumes "\<And>k. a_questionId a = Some k \<Longrightarrow> k \<notin> q_id ` set qs"
  shows "aggregate S N qs (rs1 @ r\<lparr>r_answers := as1 @ a # as2\<rparr> # rs2)
           = aggregate S N qs (rs1 @ r\<lparr>r_answers := as1 @ as2\<rparr> # rs2)"
proof -
  let ?st = "foldl (processResponse S N) (initialState qs) rs1"
  have "fst ` set (perQuestionStats ?st) = q_id ` set qs"
    using aggregate_keys [of S N qs rs1] by (simp add: aggregate_def)
  with assms have "processResponse S N ?st (r\<lparr>r_answers := as1 @ a # as2\<rparr>)
           = processResponse S N ?st (r\<lparr>r_answers := as1 @ as2\<rparr>)"
    by (intro processResponse_unknown) simp
  then show ?thesis by (simp add: aggregate_def)
qed

text \<open>
  C1. The claim: \<open>averageCompletionTimeSeconds\<close> is the mean of \<open>timeSpent\<close> over the
  completed responses that carry a numeric \<open>timeSpent\<close>. The code adds the time of every
  response with a numeric \<open>timeSpent\<close>: with a partial response of 10 seconds and a
  completed one of 30 seconds it reports 20, where the mean over the completed responses
  is 30.
\<close>

theorem C1_partial_time_is_averaged:
  "getAnalytics String_ex Number_ex (ex_survey [])
     [ex_response False (JNum 10) [], ex_response True (JNum 30) []]
   = Inr (ex_report \<lparr>totalResponses = 2, completedResponses = 1, partialResponses = 1,
                     averageCompletionTimeSeconds = Finite 20\<rparr> [] [])"
  by code_simp

text \<open>
  C2, as amended. The reached counter of a question is the number of responses that
  contain at least one answer entry for that question, whatever the entry's value: a
  response contributes 1 if and only if the question appears among its answers.
\<close>

theorem C2_reached_counts_answer_entries:
  assumes "getAnalytics S N sv rs = Inr rep" and "f \<in> set (funnel rep)"
  shows "f_reached f = length (filter (answered (f_questionId f)) rs)"
  using assms by (rule report_funnel_entry)

theorem C2_counterexample:
  "\<not> hasValue (JStr '''') \<and>
   getAnalytics String_ex Number_ex (ex_survey [ex_rating])
     [ex_response True JUndefined [ex_answer ex_rating (JStr '''')]]
   = Inr (ex_report \<lparr>totalResponses = 1, completedResponses = 1, partialResponses = 0,
                     averageCompletionTimeSeconds = Finite 0\<rparr>
           [\<lparr>f_questionId = ''650000000000000000000001'', f_questionText = ''Rate us'',
             f_order = 0, f_reached = 1\<rparr>]
           [\<lparr>qa_questionId = ''650000000000000000000001'', qa_questionText = ''Rate us'',
             qa_type = ''rating'', qa_order = 0, qa_totalAnswers = 0, qa_kind = Rating []\<rparr>])"
  by code_simp

theorem C2_witness:
  "getAnalytics String_ex Number_ex (ex_survey [ex_rating])
     [ex_response True JUndefined [ex_answer ex_rating (JStr '''')],
      ex_response False JUndefined []]
   = Inr (ex_report \<lparr>totalResponses = 2, completedResponses = 1, partialResponses = 1,
                     averageCompletionTimeSeconds = Finite 0\<rparr>
           [\<lparr>f_questionId = q_id ex_rating, f_questionText = ''Rate us'',
             f_order = 0, f_reached = 1\<rparr>]
           [\<lparr>qa_questionId = q_id ex_rating, qa_questionText = ''Rate us'',
             qa_type = ''rating'', qa_order = 0, qa_totalAnswers = 0, qa_kind = Rating []\<rparr>])
   \<and> 1 = length (filter (answered (q_id ex_rating))
       [ex_response True JUndefined [ex_answer ex_rating (JStr '''')],
        ex_response False JUndefined []])"
  (is "?run = Inr ?rep \<and> ?count")
proof -
  have run: "?run = Inr ?rep" by code_simp
  have "\<lparr>f_questionId = q_id ex_rating, f_questionText = ''Rate us'',
             f_order = 0, f_reached = 1\<rparr> \<in> set (funnel ?rep)"
    by (simp add: ex_report_def)
  from C2_reached_counts_answer_entries [OF run this] run show ?thesis by simp
qed

lemma choice_entry:
  assumes run: "getAnalytics S N sv rs = Inr rep" and e: "e \<in> set (questions rep)"
      and t: "is_choice (qa_type e)"
  shows "\<exists>optMetas. qa_kind e = Choice (js_sort byCountDesc
            (map (choiceOption optMetas (qa_totalAnswers e))
               (map (\<lambda>k. (k, count_list (selections S (qa_questionId e) rs) k))
                  (firstSeen (selections S (qa_questionId e) rs)))))"
proof -
  from report_question_entry [OF run e] obtain m where
    qa: "questionAnalytics N (questionMeta (sv_questions sv)) (finalStats S N m rs) = Inr e"
    by blast
  note b = questionAnalytics_base [OF qa]
  from t b have c: "is_choice (m_type m)" by (simp add: finalStats_fixed)
  then have "is_choice (s_type (finalStats S N m rs))" by (simp add: finalStats_fixed)
  from questionAnalytics_choice [OF qa this] obtain meta :: QuestionMeta where
    "qa_kind e = Choice (js_sort byCountDesc
       (map (choiceOption (optionMetaByValue (m_options meta)) (totalAnswers (finalStats S N m rs)))
          (optionCounts (finalStats S N m rs))))" ..
  then have "qa_kind e = Choice (js_sort byCountDesc
       (map (choiceOption (optionMetaByValue (m_options meta)) (qa_totalAnswers e))
          (map (\<lambda>k. (k, count_list (selections S (qa_questionId e) rs) k))
             (firstSeen (selections S (qa_questionId e) rs)))))"
    by (simp only: b finalStats_optionCounts [OF c] tally_entries finalStats_fixed)
  then show ?thesis ..
qed

lemma entry_totalAnswers:
  assumes run: "getAnalytics S N sv rs = Inr rep" and e: "e \<in> set (questions rep)"
  shows "qa_totalAnswers e = length (countedAnswers (qa_questionId e) rs)"
proof -
  from report_question_entry [OF run e] obtain m where
    qa: "questionAnalytics N (questionMeta (sv_questions sv)) (finalStats S N m rs) = Inr e"
    by blast
  from questionAnalytics_base [OF qa] show ?thesis by (simp add: finalStats_fixed)
qed

lemma choiceOption_fields:
  "o_value (choiceOption optMetas tot e) = fst e" "o_count (choiceOption optMetas tot e) = snd e"
  by (simp_all add: choiceOption_def)

lemma sum_count_list_firstSeen:
  "sum_list (map (count_list ks) (firstSeen ks)) = length (ks :: string list)"
proof -
  have "sum_list (map snd (foldl increment [] ks)) = length ks" by (rule tally_sum)
  then show ?thesis by (simp add: tally_entries comp_def)
qed

text \<open>
  C3, as amended. For every choice question of the report, the option counts add up to
  the number of selections: one for each element of a list-valued non-empty answer and
  one for each other non-empty answer. \<open>totalAnswers\<close> is the number of non-empty answers,
  not of selections, and every option's count is the number of times its value was
  selected. Non-empty is the test of the code, \<open>hasValue\<close>: not null, not undefined and
  not a blank string; an empty list passes it and adds no selection.
\<close>

theorem C3_counts_sum_to_selections:
  assumes "getAnalytics S N sv rs = Inr rep" and "e \<in> set (questions rep)"
      and "is_choice (qa_type e)"
  shows "\<exists>os. qa_kind e = Choice os
           \<and> sum_list (map o_count os) = length (selections S (qa_questionId e) rs)
           \<and> qa_totalAnswers e = length (countedAnswers (qa_questionId e) rs)
           \<and> map o_count os = map (count_list (selections S (qa_questionId e) rs)) (map o_value os)"
proof -
  let ?sel = "selections S (qa_questionId e) rs"
  from choice_entry [OF assms] obtain optMetas where
    k: "qa_kind e = Choice (js_sort byCountDesc
          (map (choiceOption optMetas (qa_totalAnswers e))
             (map (\<lambda>k. (k, count_list ?sel k)) (firstSeen ?sel))))" ..
  let ?xs = "map (choiceOption optMetas (qa_totalAnswers e))
               (map (\<lambda>k. (k, count_list ?sel k)) (firstSeen ?sel))"
  let ?os = "js_sort byCountDesc ?xs"
  have "sum_list (map o_count ?os) = sum_list (map o_count ?xs)" by (rule sum_list_js_sort)
  also have "\<dots> = length ?sel"
    by (simp add: comp_def choiceOption_fields sum_count_list_firstSeen)
  finally have s: "sum_list (map o_count ?os) = length ?sel" .
  have "o_count x = count_list ?sel (o_value x)" if "x \<in> set ?os" for x
  proof -
    from that have "x \<in> set ?xs" by (simp only: set_js_sort)
    then show ?thesis by (auto simp: choiceOption_fields)
  qed
  then have c: "map o_count ?os = map (count_list ?sel) (map o_value ?os)" by simp
  from k s c entry_totalAnswers [OF assms(1,2)] show ?thesis by blast
qed

theorem C3_counterexample:
  "\<exists>rep os.
     getAnalytics String_ex Number_ex (ex_survey [ex_choice])
       [ex_response True (JNum 30) [ex_answer ex_choice (JArr [JStr ''A'', JStr ''C''])]]
       = Inr rep
   \<and> map qa_kind (questions rep) = [Choice os]
   \<and> map o_value os = [''A'', ''C''] \<and> map o_count os = [1, 1]
   \<and> sum_list (map o_count os) = 2
   \<and> map qa_totalAnswers (questions rep) = [1]"
proof -
  have "getAnalytics String_ex Number_ex (ex_survey [ex_choice])
     [ex_response True (JNum 30) [ex_answer ex_choice (JArr [JStr ''A'', JStr ''C''])]]
   = Inr (ex_report \<lparr>totalResponses = 1, completedResponses = 1, partialResponses = 0,
                     averageCompletionTimeSeconds = Finite 30\<rparr>
           [\<lparr>f_questionId = q_id ex_choice, f_questionText = ''Pick'', f_order = 1,
             f_reached = 1\<rparr>]
           [\<lparr>qa_questionId = q_id ex_choice, qa_questionText = ''Pick'',
             qa_type = ''multiple_choice'', qa_order = 1, qa_totalAnswers = 1,
             qa_kind = Choice
               [\<lparr>o_value = ''A'', o_label = ''Alpha'', o_count = 1, o_percentage = Finite 100\<rparr>,
                \<lparr>o_value = ''C'', o_label = ''Gamma'', o_count = 1, o_percentage = Finite 100\<rparr>]\<rparr>])"
    by code_simp
  then show ?thesis by (simp add: ex_report_def)
qed

lemma ex_choice_run:
  "getAnalytics String_ex Number_ex (ex_survey [ex_choice]) ex_choice_responses
     = Inr ex_choice_report"
  by code_simp

lemma ex_choice_member: "ex_choice_entry \<in> set (questions ex_choice_report)"
  by (simp add: ex_choice_report_def ex_report_def)

lemma ex_choice_type: "is_choice (qa_type ex_choice_entry)"
  by (simp add: ex_choice_entry_def is_choice_def)

theorem C3_witness:
  "getAnalytics String_ex Number_ex (ex_survey [ex_choice]) ex_choice_responses
     = Inr ex_choice_report
   \<and> (\<exists>os. qa_kind ex_choice_entry = Choice os
         \<and> sum_list (map o_count os)
             = length (selections String_ex (qa_questionId ex_choice_entry) ex_choice_responses)
         \<and> qa_totalAnswers ex_choice_entry
             = length (countedAnswers (qa_questionId ex_choice_entry) ex_choice_responses)
         \<and> map o_count os
             = map (count_list (selections String_ex (qa_questionId ex_choice_entry)
                                  ex_choice_responses)) (map o_value os))"
  using ex_choice_run
    C3_counts_sum_to_selections [OF ex_choice_run ex_choice_member ex_choice_type]
  by (rule conjI)

text \<open>
  C5. In every report, the reached counter of every funnel entry is at most
  \<open>totalResponses\<close>, the number of responses supplied.
\<close>

theorem C5_reached_at_most_totalResponses:
  assumes "getAnalytics S N sv rs = Inr rep" and "f \<in> set (funnel rep)"
  shows "f_reached f \<le> totalResponses (totals rep) \<and> totalResponses (totals rep) = length rs"
proof -
  have "f_reached f \<le> length rs"
    by (simp add: report_funnel_entry [OF assms])
  with getAnalytics_closed(3) [OF assms(1)] show ?thesis by simp
qed

theorem C5_witness:
  "getAnalytics String_ex Number_ex (ex_survey [ex_choice]) ex_choice_responses
     = Inr ex_choice_report
   \<and> f_reached \<lparr>f_questionId = q_id ex_choice, f_questionText = ''Pick'', f_order = 1,
                f_reached = 3\<rparr> \<le> totalResponses (totals ex_choice_report)
   \<and> totalResponses (totals ex_choice_report) = length ex_choice_responses"
proof -
  have "\<lparr>f_questionId = q_id ex_choice, f_questionText = ''Pick'', f_order = 1,
         f_reached = 3\<rparr> \<in> set (funnel ex_choice_report)"
    by (simp add: ex_choice_report_def ex_report_def)
  from C5_reached_at_most_totalResponses [OF ex_choice_run this] ex_choice_run
  show ?thesis by (intro conjI) simp_all
qed

text \<open>
  C7. For every choice question of the report, the options are listed by count
  descending, and the options of equal count are listed in the order in which their
  values were first seen among the selections.
\<close>

theorem C7_options_sorted_stable:
  assumes "getAnalytics S N sv rs = Inr rep" and "e \<in> set (questions rep)"
      and "is_choice (qa_type e)"
  shows "\<exists>os. qa_kind e = Choice os
           \<and> sorted_wrt (\<lambda>a b. o_count b \<le> o_count a) os
           \<and> (\<forall>c. map o_value (filter (\<lambda>x. o_count x = c) os)
                  = filter (\<lambda>v. count_list (selections S (qa_questionId e) rs) v = c)
                      (firstSeen (selections S (qa_questionId e) rs)))"
proof -
  let ?sel = "selections S (qa_questionId e) rs"
  from choice_entry [OF assms] obtain optMetas where
    k: "qa_kind e = Choice (js_sort byCountDesc
          (map (choiceOption optMetas (qa_totalAnswers e))
             (map (\<lambda>k. (k, count_list ?sel k)) (firstSeen ?sel))))" ..
  let ?mk = "\<lambda>k. choiceOption optMetas (qa_totalAnswers e) (k, count_list ?sel k)"
  let ?os = "js_sort byCountDesc (map ?mk (firstSeen ?sel))"
  have k': "qa_kind e = Choice ?os" using k by (simp add: comp_def)
  have s: "sorted_wrt (\<lambda>a b. o_count b \<le> o_count a) ?os" by (rule byCountDesc_sorted)
  have "map o_value (filter (\<lambda>x. o_count x = c) ?os)
          = filter (\<lambda>v. count_list ?sel v = c) (firstSeen ?sel)" for c
  proof -
    have "filter (\<lambda>x. o_count x = c) ?os = filter (\<lambda>x. o_count x = c) (map ?mk (firstSeen ?sel))"
      by (rule byCountDesc_stable)
    also have "\<dots> = map ?mk (filter (\<lambda>v. count_list ?sel v = c) (firstSeen ?sel))"
      by (simp add: filter_map comp_def choiceOption_fields)
    finally show ?thesis by (simp add: comp_def choiceOption_fields)
  qed
  with k' s show ?thesis by blast
qed

theorem C7_witness:
  "getAnalytics String_ex Number_ex (ex_survey [ex_choice]) ex_choice_responses
     = Inr ex_choice_report
   \<and> (\<exists>os. qa_kind ex_choice_entry = Choice os
         \<and> sorted_wrt (\<lambda>a b. o_count b \<le> o_count a) os
         \<and> (\<forall>c. map o_value (filter (\<lambda>x. o_count x = c) os)
               = filter (\<lambda>v. count_list (selections String_ex (qa_questionId ex_choice_entry)
                                            ex_choice_responses) v = c)
                   (firstSeen (selections String_ex (qa_questionId ex_choice_entry)
                                 ex_choice_responses))))
   \<and> firstSeen (selections String_ex (qa_questionId ex_choice_entry) ex_choice_responses)
       = [''B'', ''A'', ''C'']"
proof -
  have "firstSeen (selections String_ex (qa_questionId ex_choice_entry) ex_choice_responses)
       = [''B'', ''A'', ''C'']"
    by code_simp
  with ex_choice_run
    C7_options_sorted_stable [OF ex_choice_run ex_choice_member ex_choice_type]
  show ?thesis by (intro conjI)
qed

lemma length_map_filter: "length (List.map_filter f xs) = length (filter (\<lambda>x. f x \<noteq> None) xs)"
  by (simp add: List.map_filter_def)

lemma ratingEntry_count: "d_count (ratingEntry N tot e) = snd e"
  by (simp add: ratingEntry_def)

text \<open>
  C10. For every rating question of the report, the counts of the distribution add up
  to the number of non-empty answers that convert to a number, \<open>totalAnswers\<close> is the
  number of all non-empty answers, and so the sum of the distribution is at most
  \<open>totalAnswers\<close>. Non-empty is the test of the code, \<open>hasValue\<close>.
\<close>

theorem C10_distribution_at_most_totalAnswers:
  assumes "getAnalytics S N sv rs = Inr rep" and "e \<in> set (questions rep)"
      and "is_rating (qa_type e)"
  shows "\<exists>ds. qa_kind e = Rating ds
           \<and> sum_list (map d_count ds)
               = length (filter (\<lambda>v. N v \<noteq> None) (countedAnswers (qa_questionId e) rs))
           \<and> qa_totalAnswers e = length (countedAnswers (qa_questionId e) rs)
           \<and> sum_list (map d_count ds) \<le> qa_totalAnswers e"
proof -
  from report_question_entry [OF assms(1,2)] obtain m where
    qa: "questionAnalytics N (questionMeta (sv_questions sv)) (finalStats S N m rs) = Inr e"
    by blast
  note b = questionAnalytics_base [OF qa]
  let ?s = "finalStats S N m rs" and ?vs = "countedAnswers (qa_questionId e) rs"
  from assms(3) b have r: "is_rating (m_type m)" by (simp add: finalStats_fixed)
  then have "is_rating (s_type ?s)" by (simp add: finalStats_fixed)
  from questionAnalytics_rating [OF qa this]
  have k: "qa_kind e = Rating (js_sort byValue (map (ratingEntry N (totalAnswers ?s)) (ratingCounts ?s)))" .
  let ?ds = "js_sort byValue (map (ratingEntry N (totalAnswers ?s)) (ratingCounts ?s))"
  have "sum_list (map d_count ?ds)
          = sum_list (map d_count (map (ratingEntry N (totalAnswers ?s)) (ratingCounts ?s)))"
    by (rule sum_list_js_sort)
  also have "\<dots> = sum_list (map snd (ratingCounts ?s))"
    by (simp add: comp_def ratingEntry_count)
  also have "\<dots> = length (List.map_filter N ?vs)"
    using b by (simp add: finalStats_ratingCounts [OF r] tally_sum finalStats_fixed)
  finally have s: "sum_list (map d_count ?ds) = length (filter (\<lambda>v. N v \<noteq> None) ?vs)"
    by (simp add: length_map_filter)
  have t: "qa_totalAnswers e = length ?vs" by (rule entry_totalAnswers [OF assms(1,2)])
  from s t have "sum_list (map d_count ?ds) \<le> qa_totalAnswers e" by simp
  with k s t show ?thesis by blast
qed

lemma ex_rating_run:
  "getAnalytics String_ex Number_ex (ex_survey [ex_rating]) ex_rating_responses
     = Inr ex_rating_report"
  by code_simp

theorem C10_witness:
  "getAnalytics String_ex Number_ex (ex_survey [ex_rating]) ex_rating_responses
     = Inr ex_rating_report
   \<and> (\<exists>ds. qa_kind ex_rating_entry = Rating ds
         \<and> sum_list (map d_count ds)
             = length (filter (\<lambda>v. Number_ex v \<noteq> None)
                 (countedAnswers (qa_questionId ex_rating_entry) ex_rating_responses))
         \<and> qa_totalAnswers ex_rating_entry
             = length (countedAnswers (qa_questionId ex_rating_entry) ex_rating_responses)
         \<and> sum_list (map d_count ds) \<le> qa_totalAnswers ex_rating_entry)
   \<and> Number_ex (JStr ''abc'') = None"
proof -
  have m: "ex_rating_entry \<in> set (questions ex_rating_report)"
    by (simp add: ex_rating_report_def ex_report_def)
  have t: "is_rating (qa_type ex_rating_entry)"
    by (simp add: ex_rating_entry_def is_rating_def)
  have n: "Number_ex (JStr ''abc'') = None" by code_simp
  from ex_rating_run C10_distribution_at_most_totalAnswers [OF ex_rating_run m t] n
  show ?thesis by (intro conjI)
qed

text \<open>
  C6. An answer whose \<open>questionId\<close> is missing or is not the id of a question of the
  survey is skipped: the aggregation returns a report, without error, and it is the
  report of the same responses without that answer.
\<close>

theorem C6_unknown_question_skipped:
  assumes "\<And>q. q \<in> set (sv_questions sv) \<Longrightarrow> a_questionId a \<noteq> Some (q_id q)"
  shows "\<exists>rep. getAnalytics S N sv (rs1 @ r\<lparr>r_answers := as1 @ a # as2\<rparr> # rs2) = Inr rep
             \<and> getAnalytics S N sv (rs1 @ r\<lparr>r_answers := as1 @ as2\<rparr> # rs2) = Inr rep"
proof -
  from assms have "k \<notin> q_id ` set (sv_questions sv)" if "a_questionId a = Some k" for k
    using that by auto
  then have "aggregate S N (sv_questions sv) (rs1 @ r\<lparr>r_answers := as1 @ a # as2\<rparr> # rs2)
           = aggregate S N (sv_questions sv) (rs1 @ r\<lparr>r_answers := as1 @ as2\<rparr> # rs2)"
    by (rule aggregate_unknown)
  then have "getAnalytics S N sv (rs1 @ r\<lparr>r_answers := as1 @ a # as2\<rparr> # rs2)
           = getAnalytics S N sv (rs1 @ r\<lparr>r_answers := as1 @ as2\<rparr> # rs2)"
    by (simp add: getAnalytics_def)
  with getAnalytics_returns [of S N sv "rs1 @ r\<lparr>r_answers := as1 @ as2\<rparr> # rs2"]
  show ?thesis by auto
qed

theorem C6_witness:
  "\<exists>rep. getAnalytics String_ex Number_ex (ex_survey [ex_rating])
            ([] @ (ex_response True (JNum 30) [])
               \<lparr>r_answers := [ex_answer ex_rating (JNum 4)]
                  @ \<lparr>a_questionId = Some ''650000000000000000000009'', a_answer = JNum 5\<rparr> # []\<rparr>
             # []) = Inr rep
        \<and> getAnalytics String_ex Number_ex (ex_survey [ex_rating])
            ([] @ (ex_response True (JNum 30) [])
               \<lparr>r_answers := [ex_answer ex_rating (JNum 4)] @ []\<rparr> # []) = Inr rep"
proof (rule C6_unknown_question_skipped)
  fix q assume "q \<in> set (sv_questions (ex_survey [ex_rating]))"
  then show "a_questionId \<lparr>a_questionId = Some ''650000000000000000000009'', a_answer = JNum 5\<rparr>
               \<noteq> Some (q_id q)"
    by (simp add: ex_survey_def ex_rating_def)
qed

lemma countedAnswers_drop:
  assumes "\<not> hasValue (a_answer a)"
  shows "countedAnswers q (rs1 @ r\<lparr>r_answers := as1 @ a # as2\<rparr> # rs2)
           = countedAnswers q (rs1 @ r\<lparr>r_answers := as1 @ as2\<rparr> # rs2)"
  by (simp add: countedAnswers_split countedValues_drop [OF assms])

text \<open>
  C4, as amended. An answer whose value is null, undefined or a string that is empty
  after trimming increments neither \<open>totalAnswers\<close> nor any tally: the per-question
  analytics of the report (\<open>totalAnswers\<close>, option counts, rating distribution, text count)
  and its totals (the classification of the responses as completed or partial) are those
  of the same responses without that answer. The funnel is not part of the statement.
\<close>

theorem C4_empty_answer_not_counted:
  assumes "a_answer a = JUndefined \<or> a_answer a = JNull
             \<or> (\<exists>s. a_answer a = JStr s \<and> trim s = '''')"
  shows "\<exists>rep rep'.
           getAnalytics S N sv (rs1 @ r\<lparr>r_answers := as1 @ a # as2\<rparr> # rs2) = Inr rep
         \<and> getAnalytics S N sv (rs1 @ r\<lparr>r_answers := as1 @ as2\<rparr> # rs2) = Inr rep'
         \<and> questions rep = questions rep' \<and> totals rep = totals rep'"
proof -
  let ?rs = "rs1 @ r\<lparr>r_answers := as1 @ a # as2\<rparr> # rs2"
  let ?rs' = "rs1 @ r\<lparr>r_answers := as1 @ as2\<rparr> # rs2"
  let ?qm = "questionMeta (sv_questions sv)"
  from assms have nv: "\<not> hasValue (a_answer a)" by (simp add: hasValue_iff)
  from getAnalytics_returns obtain rep where run: "getAnalytics S N sv ?rs = Inr rep" ..
  from getAnalytics_returns obtain rep' where run': "getAnalytics S N sv ?rs' = Inr rep'" ..
  have same: "questionAnalytics N ?qm (finalStats S N m ?rs)
                = questionAnalytics N ?qm (finalStats S N m ?rs')" for m
    by (rule finalStats_without_reached) (rule countedAnswers_drop [OF nv])
  from getAnalytics_closed(2) [OF run]
  have "list_all2 (\<lambda>m e. questionAnalytics N ?qm (finalStats S N m ?rs') = Inr e)
          (sortedMetas (sv_questions sv)) (questions rep)"
    by (simp only: same)
  with getAnalytics_closed(2) [OF run']
  have q: "questions rep = questions rep'"
    by (metis list_all2_functional)
  have t: "timeOf (r\<lparr>r_answers := x\<rparr>) = timeOf r" for x
    by (simp add: timeOf_def)
  have "totals rep = totals rep'"
    by (simp add: getAnalytics_closed(3) [OF run] getAnalytics_closed(3) [OF run']
          List.map_filter_def t)
  with run run' q show ?thesis by blast
qed

theorem C4_witness:
  "\<exists>rep rep'.
     getAnalytics String_ex Number_ex (ex_survey [ex_rating])
       ([] @ (ex_response True (JNum 30) [])
          \<lparr>r_answers := [] @ ex_answer ex_rating (JStr ''  '') # []\<rparr> # []) = Inr rep
   \<and> getAnalytics String_ex Number_ex (ex_survey [ex_rating])
       ([] @ (ex_response True (JNum 30) []) \<lparr>r_answers := [] @ []\<rparr> # []) = Inr rep'
   \<and> questions rep = questions rep' \<and> totals rep = totals rep'"
proof (rule C4_empty_answer_not_counted)
  have "trim ''  '' = ''''" by code_simp
  then show "a_answer (ex_answer ex_rating (JStr ''  '')) = JUndefined
           \<or> a_answer (ex_answer ex_rating (JStr ''  '')) = JNull
           \<or> (\<exists>s. a_answer (ex_answer ex_rating (JStr ''  '')) = JStr s \<and> trim s = '''')"
    by (simp add: ex_answer_def)
qed

theorem C4_counterexample:
  "\<not> hasValue (JStr ''  '') \<and>
   getAnalytics String_ex Number_ex (ex_survey [ex_choice])
     [ex_response True (JNum 30) [ex_answer ex_choice (JStr ''  '')]]
   = Inr (ex_report \<lparr>totalResponses = 1, completedResponses = 1, partialResponses = 0,
                     averageCompletionTimeSeconds = Finite 30\<rparr>
           [\<lparr>f_questionId = q_id ex_choice, f_questionText = ''Pick'', f_order = 1,
             f_reached = 1\<rparr>]
           [\<lparr>qa_questionId = q_id ex_choice, qa_questionText = ''Pick'',
             qa_type = ''multiple_choice'', qa_order = 1, qa_totalAnswers = 0,
             qa_kind = Choice []\<rparr>])
   \<and> getAnalytics String_ex Number_ex (ex_survey [ex_choice])
     [ex_response True (JNum 30) [ex_answer ex_choice (JArr [])]]
   = Inr (ex_report \<lparr>totalResponses = 1, completedResponses = 1, partialResponses = 0,
                     averageCompletionTimeSeconds = Finite 30\<rparr>
           [\<lparr>f_questionId = q_id ex_choice, f_questionText = ''Pick'', f_order = 1,
             f_reached = 1\<rparr>]
           [\<lparr>qa_questionId = q_id ex_choice, qa_questionText = ''Pick'',
             qa_type = ''multiple_choice'', qa_order = 1, qa_totalAnswers = 1,
             qa_kind = Choice []\<rparr>])"
  by code_simp



lemma quotient_by_zero: "\<not> is_finite (js_times (js_divide (of_nat c) (of_nat 0)) 100)"
  by (simp add: js_divide_def js_times_def is_finite_def)








subsection \<open>The same responses in another order\<close>






















end
